theory Spec2Isabelle
  imports Complex_Main
begin

section \<open>The Bristol Stock Exchange: order book and matching engine\<close>

text \<open>
  The development follows \<^verbatim>\<open>src/borsim.py\<close> under Python 3 semantics: a \<^verbatim>\<open>dict\<close>
  iterates in insertion order and keeps the position of a key that is assigned again,
  an ordering comparison with \<^verbatim>\<open>None\<close> raises \<^verbatim>\<open>TypeError\<close>, and \<^verbatim>\<open>/\<close> is true
  division. An exception or a \<^verbatim>\<open>sys.exit\<close> is a value \<open>Inl e\<close>; a call that returns
  gives \<open>Inr\<close> of its return value and the updated object.
\<close>

datatype error = KeyError | IndexError | TypeError | ValueError | ZeroDivisionError
  | UnboundLocalError | SysExit

definition bindE :: "error + 'a \<Rightarrow> ('a \<Rightarrow> error + 'b) \<Rightarrow> error + 'b" where
  "bindE m f = (case m of Inl e \<Rightarrow> Inl e | Inr x \<Rightarrow> f x)"

subsection \<open>Orders\<close>

text \<open>The order type is a Python string; the code tests it against \<^verbatim>\<open>'Bid'\<close> and \<^verbatim>\<open>'Ask'\<close>.\<close>

datatype otype = Bid | Ask | OtherType

text \<open>
  Prices are any linearly ordered type \<open>'p\<close>; timestamps and quote ids are rationals (a
  customer order is created with the id \<^verbatim>\<open>-3.14\<close>, the exchange then assigns integers);
  quantities are integers.
\<close>

record 'p order =
  tid :: string
  otype :: otype
  price :: 'p
  qty :: int
  time :: rat
  qid :: rat

subsection \<open>Insertion-ordered dictionaries\<close>

definition dict_get :: "('k \<times> 'v) list \<Rightarrow> 'k \<Rightarrow> error + 'v" where
  "dict_get d k = (case map_of d k of None \<Rightarrow> Inl KeyError | Some v \<Rightarrow> Inr v)"

text \<open>\<^verbatim>\<open>d[k] = v\<close>: an existing key keeps its position, a new key goes last.\<close>

fun dict_set :: "('k \<times> 'v) list \<Rightarrow> 'k \<Rightarrow> 'v \<Rightarrow> ('k \<times> 'v) list" where
  "dict_set [] k v = [(k, v)]"
| "dict_set ((k', v') # d) k v = (if k' = k then (k, v) # d else (k', v') # dict_set d k v)"

text \<open>\<^verbatim>\<open>del d[k]\<close> raises \<^verbatim>\<open>KeyError\<close> when the key is absent.\<close>

definition dict_del :: "('k \<times> 'v) list \<Rightarrow> 'k \<Rightarrow> error + ('k \<times> 'v) list" where
  "dict_del d k = (case map_of d k of None \<Rightarrow> Inl KeyError
                   | Some v \<Rightarrow> Inr (filter (\<lambda>kv. fst kv \<noteq> k) d))"

subsection \<open>One side of the book: \<^verbatim>\<open>Orderbook_half\<close>\<close>

text \<open>An entry of a price level's order list: \<^verbatim>\<open>[order.time, order.qty, order.tid, order.qid]\<close>.\<close>

type_synonym lob_entry = "rat \<times> int \<times> string \<times> rat"

definition entry_of :: "'p order \<Rightarrow> lob_entry" where
  "entry_of ord = (time ord, qty ord, tid ord, qid ord)"

definition entry_tid :: "lob_entry \<Rightarrow> string" where
  "entry_tid e = fst (snd (snd e))"

type_synonym 'p lobdict = "('p \<times> (int \<times> lob_entry list)) list"

record 'p Orderbook_half =
  booktype :: otype
  orders :: "(string \<times> 'p order) list"
  lob :: "'p lobdict"
  lob_anon :: "('p \<times> int) list"
  best_price :: "'p option"
  best_tid :: "string option"
  worstprice :: 'p
  n_orders :: int
  lob_depth :: int

definition Orderbook_half_init :: "otype \<Rightarrow> 'p \<Rightarrow> 'p Orderbook_half" where
  "Orderbook_half_init bt wp =
     \<lparr>booktype = bt, orders = [], lob = [], lob_anon = [], best_price = None,
      best_tid = None, worstprice = wp, n_orders = 0, lob_depth = 0\<rparr>"

text \<open>
  \<^verbatim>\<open>anonymize_lob\<close>: the keys of the price index in ascending order, each with the
  aggregate quantity stored under it (the lookup is of a key of the same dictionary).
\<close>

definition anonymize_lob :: "('p::linorder) lobdict \<Rightarrow> ('p \<times> int) list" where
  "anonymize_lob l = map (\<lambda>p. (p, fst (the (map_of l p)))) (sort (map fst l))"

text \<open>The body of the loop of \<^verbatim>\<open>build_lob\<close>, for one order of the owner map.\<close>

definition lob_add :: "'p lobdict \<Rightarrow> 'p order \<Rightarrow> 'p lobdict" where
  "lob_add l ord =
     (case map_of l (price ord) of
        Some (q, orderlist) \<Rightarrow> dict_set l (price ord) (q + qty ord, orderlist @ [entry_of ord])
      | None \<Rightarrow> dict_set l (price ord) (qty ord, [entry_of ord]))"

definition build_lob :: "('p::linorder) Orderbook_half \<Rightarrow> error + 'p Orderbook_half" where
  "build_lob h =
     (let l = foldl lob_add [] (map snd (orders h));
          la = anonymize_lob l
      in if length l > 0 then
           (let bp = (if booktype h = Bid then fst (last la) else fst (hd la))
            in bindE (dict_get l bp) (\<lambda>lvl.
                 case snd lvl of
                   [] \<Rightarrow> Inl IndexError
                 | e # es \<Rightarrow> Inr (h\<lparr>lob := l, lob_anon := la, best_price := Some bp,
                                     best_tid := Some (entry_tid e)\<rparr>)))
         else Inr (h\<lparr>lob := l, lob_anon := la, best_price := None, best_tid := None\<rparr>))"

datatype response = Addition | Overwrite

definition book_add :: "'p order \<Rightarrow> ('p::linorder) Orderbook_half
    \<Rightarrow> error + (response \<times> 'p Orderbook_half)" where
  "book_add ord h =
     (let n = n_orders h;
          h1 = h\<lparr>orders := dict_set (orders h) (tid ord) ord\<rparr>;
          h2 = h1\<lparr>n_orders := int (length (orders h1))\<rparr>
      in bindE (build_lob h2) (\<lambda>h3.
           if n \<noteq> n_orders h3 then Inr (Addition, h3) else Inr (Overwrite, h3)))"

definition book_del :: "'p order \<Rightarrow> ('p::linorder) Orderbook_half \<Rightarrow> error + 'p Orderbook_half" where
  "book_del ord h =
     (if map_of (orders h) (tid ord) \<noteq> None then
        bindE (dict_del (orders h) (tid ord)) (\<lambda>os.
          build_lob (h\<lparr>orders := os, n_orders := int (length os)\<rparr>))
      else Inr h)"

text \<open>
  \<^verbatim>\<open>max(self.lob.keys())\<close> and \<^verbatim>\<open>min(self.lob.keys())\<close> raise \<^verbatim>\<open>ValueError\<close> on an
  empty dictionary.
\<close>

definition py_max :: "('p::linorder) list \<Rightarrow> error + 'p" where
  "py_max xs = (case xs of [] \<Rightarrow> Inl ValueError | y # ys \<Rightarrow> Inr (fold max ys y))"

definition py_min :: "('p::linorder) list \<Rightarrow> error + 'p" where
  "py_min xs = (case xs of [] \<Rightarrow> Inl ValueError | y # ys \<Rightarrow> Inr (fold min ys y))"

text \<open>
  \<^verbatim>\<open>delete_best\<close>. \<^verbatim>\<open>self.lob[self.best_price]\<close> raises \<^verbatim>\<open>KeyError\<close> when the cached best
  price is \<^verbatim>\<open>None\<close> or not a price level. Both branches end in the call of
  \<^verbatim>\<open>build_lob\<close>, which recomputes the index and the cached best price and owner from the
  owner map.
\<close>

definition delete_best :: "('p::linorder) Orderbook_half \<Rightarrow> error + (string \<times> 'p Orderbook_half)" where
  "delete_best h =
     (case best_price h of
        None \<Rightarrow> Inl KeyError
      | Some bp \<Rightarrow>
          bindE (dict_get (lob h) bp) (\<lambda>best_price_orders.
            let best_price_qty = fst best_price_orders in
            case snd best_price_orders of
              [] \<Rightarrow> Inl IndexError
            | e # es \<Rightarrow>
                let best_price_counterparty = entry_tid e in
                bindE
                  (if best_price_qty = 1 then
                     bindE (dict_del (lob h) bp) (\<lambda>l1.
                     bindE (dict_del (orders h) best_price_counterparty) (\<lambda>os.
                       let h1 = h\<lparr>lob := l1, orders := os, n_orders := n_orders h - 1\<rparr> in
                       if n_orders h1 > 0 then
                         bindE (if booktype h1 = Bid then py_max (map fst (lob h1))
                                else py_min (map fst (lob h1))) (\<lambda>b.
                           Inr (h1\<lparr>best_price := Some b, lob_depth := int (length (lob h1))\<rparr>))
                       else Inr (h1\<lparr>best_price := Some (worstprice h1), lob_depth := 0\<rparr>)))
                   else
                     (let h1 = h\<lparr>lob := dict_set (lob h) bp (best_price_qty - 1, es)\<rparr> in
                      bindE (dict_del (orders h1) best_price_counterparty) (\<lambda>os.
                        Inr (h1\<lparr>orders := os, n_orders := n_orders h1 - 1\<rparr>))))
                  (\<lambda>h2. bindE (build_lob h2) (\<lambda>h3. Inr (best_price_counterparty, h3)))))"

subsection \<open>The exchange\<close>

datatype 'p tape_item =
    Trade rat 'p string string int
  | Cancel rat "'p order"

record 'p Exchange =
  bids :: "'p Orderbook_half"
  asks :: "'p Orderbook_half"
  tape :: "'p tape_item list"
  quote_id :: int

definition bse_sys_minprice :: "'p::numeral" where
  "bse_sys_minprice = 1"

definition bse_sys_maxprice :: "'p::numeral" where
  "bse_sys_maxprice = 1000"

definition Exchange_init :: "('p::numeral) Exchange" where
  "Exchange_init =
     \<lparr>bids = Orderbook_half_init Bid bse_sys_minprice,
      asks = Orderbook_half_init Ask bse_sys_maxprice,
      tape = [], quote_id = 0\<rparr>"

text \<open>\<^verbatim>\<open>xs[-1]\<close> and \<^verbatim>\<open>xs[0]\<close> raise \<^verbatim>\<open>IndexError\<close> on an empty list.\<close>

definition py_last :: "'a list \<Rightarrow> error + 'a" where
  "py_last xs = (if xs = [] then Inl IndexError else Inr (last xs))"

definition py_first :: "'a list \<Rightarrow> error + 'a" where
  "py_first xs = (case xs of [] \<Rightarrow> Inl IndexError | x # _ \<Rightarrow> Inr x)"

text \<open>
  The refresh of the cached best price and owner that \<^verbatim>\<open>add_order\<close> and \<^verbatim>\<open>del_order\<close>
  perform after the book operation: \<^verbatim>\<open>lob_anon[-1][0]\<close> for bids, \<^verbatim>\<open>lob_anon[0][0]\<close> for
  asks, then \<^verbatim>\<open>lob[best_price][1][0][2]\<close>.
\<close>

definition set_best :: "bool \<Rightarrow> ('p::linorder) Orderbook_half \<Rightarrow> error + 'p Orderbook_half" where
  "set_best is_bid h =
     bindE (if is_bid then py_last (lob_anon h) else py_first (lob_anon h)) (\<lambda>pq.
     bindE (dict_get (lob h) (fst pq)) (\<lambda>lvl.
     bindE (py_first (snd lvl)) (\<lambda>e.
       Inr (h\<lparr>best_price := Some (fst pq), best_tid := Some (entry_tid e)\<rparr>))))"

text \<open>
  \<^verbatim>\<open>add_order\<close> stamps the order with the next quote id and returns the stamped order's
  id and the book's response.
\<close>

definition add_order :: "'p order \<Rightarrow> ('p::linorder) Exchange
    \<Rightarrow> error + ((rat \<times> response) \<times> 'p Exchange)" where
  "add_order ord0 ex =
     (let ord = ord0\<lparr>qid := of_int (quote_id ex)\<rparr>;
          ex1 = ex\<lparr>quote_id := quote_id ex + 1\<rparr>
      in if otype ord = Bid then
           bindE (book_add ord (bids ex1)) (\<lambda>(resp, b).
           bindE (set_best True b) (\<lambda>b'.
             Inr ((qid ord, resp), ex1\<lparr>bids := b'\<rparr>)))
         else
           bindE (book_add ord (asks ex1)) (\<lambda>(resp, a).
           bindE (set_best False a) (\<lambda>a'.
             Inr ((qid ord, resp), ex1\<lparr>asks := a'\<rparr>))))"

definition del_order :: "rat \<Rightarrow> 'p order \<Rightarrow> ('p::linorder) Exchange \<Rightarrow> error + 'p Exchange" where
  "del_order tm ord ex =
     (if otype ord = Bid then
        bindE (book_del ord (bids ex)) (\<lambda>b.
        bindE (if n_orders b > 0 then set_best True b
               else Inr (b\<lparr>best_price := None, best_tid := None\<rparr>)) (\<lambda>b'.
          Inr (ex\<lparr>bids := b', tape := tape ex @ [Cancel tm ord]\<rparr>)))
      else if otype ord = Ask then
        bindE (book_del ord (asks ex)) (\<lambda>a.
        bindE (if n_orders a > 0 then set_best False a
               else Inr (a\<lparr>best_price := None, best_tid := None\<rparr>)) (\<lambda>a'.
          Inr (ex\<lparr>asks := a', tape := tape ex @ [Cancel tm ord]\<rparr>)))
      else Inl SysExit)"

text \<open>\<^verbatim>\<open>x >= y\<close> on cached best prices: \<^verbatim>\<open>TypeError\<close> when either is \<^verbatim>\<open>None\<close>.\<close>

definition py_ge :: "('p::linorder) option \<Rightarrow> 'p option \<Rightarrow> error + bool" where
  "py_ge x y = (case (x, y) of (Some a, Some b) \<Rightarrow> Inr (b \<le> a) | _ \<Rightarrow> Inl TypeError)"

text \<open>
  The tail of \<^verbatim>\<open>process_order2\<close>: with a counterparty, the trade record is appended to
  the tape and returned. \<^verbatim>\<open>price\<close> is bound exactly when \<^verbatim>\<open>counterparty\<close> was assigned.
\<close>

definition finish_order :: "rat \<Rightarrow> 'p order \<Rightarrow> string option \<Rightarrow> 'p option \<Rightarrow> 'p Exchange
    \<Rightarrow> error + ('p tape_item option \<times> 'p Exchange)" where
  "finish_order tm ord counterparty prc ex =
     (case (counterparty, prc) of
        (Some c, Some p) \<Rightarrow>
          (let transaction_record = Trade tm p c (tid ord) (qty ord)
           in Inr (Some transaction_record, ex\<lparr>tape := tape ex @ [transaction_record]\<rparr>))
      | _ \<Rightarrow> Inr (None, ex))"

definition process_order2 :: "rat \<Rightarrow> 'p order \<Rightarrow> ('p::linorder) Exchange
    \<Rightarrow> error + ('p tape_item option \<times> 'p Exchange)" where
  "process_order2 tm ord ex =
     bindE (add_order ord ex) (\<lambda>(qr, ex1).
       let best_ask = best_price (asks ex1);
           best_ask_tid = best_tid (asks ex1);
           best_bid = best_price (bids ex1);
           best_bid_tid = best_tid (bids ex1)
       in if otype ord = Bid then
            bindE (if n_orders (asks ex1) > 0 then py_ge best_bid best_ask else Inr False) (\<lambda>crosses.
              if crosses then
                bindE (delete_best (asks ex1)) (\<lambda>(c1, a').
                bindE (delete_best (bids (ex1\<lparr>asks := a'\<rparr>))) (\<lambda>(c2, b').
                  finish_order tm ord best_ask_tid best_ask (ex1\<lparr>asks := a', bids := b'\<rparr>)))
              else finish_order tm ord None None ex1)
          else if otype ord = Ask then
            bindE (if n_orders (bids ex1) > 0 then py_ge best_bid best_ask else Inr False) (\<lambda>crosses.
              if crosses then
                bindE (delete_best (bids ex1)) (\<lambda>(c1, b').
                bindE (delete_best (asks (ex1\<lparr>bids := b'\<rparr>))) (\<lambda>(c2, a').
                  finish_order tm ord best_bid_tid best_bid (ex1\<lparr>bids := b', asks := a'\<rparr>)))
              else finish_order tm ord None None ex1)
          else Inl SysExit)"

subsection \<open>What the exchange publishes\<close>

record 'p public_side =
  ps_best :: "'p option"
  ps_worst :: 'p
  ps_n :: int
  ps_lob :: "('p \<times> int) list"

record 'p public_data =
  pd_time :: rat
  pd_bids :: "'p public_side"
  pd_asks :: "'p public_side"
  pd_QID :: int
  pd_tape :: "'p tape_item list"

text \<open>\<^verbatim>\<open>publish_lob\<close>, read as the values a trader finds in the published dictionary.\<close>

definition publish_lob :: "rat \<Rightarrow> 'p Exchange \<Rightarrow> 'p public_data" where
  "publish_lob tm ex =
     \<lparr>pd_time = tm,
      pd_bids = \<lparr>ps_best = best_price (bids ex), ps_worst = worstprice (bids ex),
                 ps_n = n_orders (bids ex), ps_lob = lob_anon (bids ex)\<rparr>,
      pd_asks = \<lparr>ps_best = best_price (asks ex), ps_worst = worstprice (asks ex),
                 ps_n = n_orders (asks ex), ps_lob = lob_anon (asks ex)\<rparr>,
      pd_QID = quote_id ex,
      pd_tape = tape ex\<rparr>"

subsection \<open>Published lists as shared objects\<close>

text \<open>
  The records above identify a Python list with its contents. \<^verbatim>\<open>publish_lob\<close> builds
  three new dictionaries but stores in them the expressions \<^verbatim>\<open>self.bids.lob_anon\<close>,
  \<^verbatim>\<open>self.asks.lob_anon\<close> and \<^verbatim>\<open>self.tape\<close> themselves, so what the snapshot holds
  there are references to the exchange's list objects. To talk about that, list objects
  live in a store and the exchange's fields that \<^verbatim>\<open>publish_lob\<close> reads hold addresses.
\<close>

type_synonym ref = nat

datatype 'p pylist = AnonList "('p \<times> int) list" | TapeList "'p tape_item list"

type_synonym 'p store = "ref \<rightharpoonup> 'p pylist"

record 'p side_obj =
  so_best_price :: "'p option"
  so_worstprice :: 'p
  so_n_orders :: int
  so_lob_anon :: ref

record 'p Exchange_obj =
  xo_bids :: "'p side_obj"
  xo_asks :: "'p side_obj"
  xo_quote_id :: int
  xo_tape :: ref

record 'p snapshot_side =
  sn_best :: "'p option"
  sn_worst :: 'p
  sn_n :: int
  sn_lob :: ref

record 'p snapshot =
  sn_time :: rat
  sn_bids :: "'p snapshot_side"
  sn_asks :: "'p snapshot_side"
  sn_QID :: int
  sn_tape :: ref

text \<open>\<^verbatim>\<open>publish_lob\<close> on objects: no list is allocated or copied, the store is unchanged.\<close>

definition publish_lob_obj :: "rat \<Rightarrow> 'p Exchange_obj \<Rightarrow> 'p snapshot" where
  "publish_lob_obj tm xo =
     \<lparr>sn_time = tm,
      sn_bids = \<lparr>sn_best = so_best_price (xo_bids xo), sn_worst = so_worstprice (xo_bids xo),
                 sn_n = so_n_orders (xo_bids xo), sn_lob = so_lob_anon (xo_bids xo)\<rparr>,
      sn_asks = \<lparr>sn_best = so_best_price (xo_asks xo), sn_worst = so_worstprice (xo_asks xo),
                 sn_n = so_n_orders (xo_asks xo), sn_lob = so_lob_anon (xo_asks xo)\<rparr>,
      sn_QID = xo_quote_id xo,
      sn_tape = xo_tape xo\<rparr>"

text \<open>\<^verbatim>\<open>xs.append(x)\<close> on the tape list and on a depth list held at an address.\<close>

definition tape_append :: "ref \<Rightarrow> 'p tape_item \<Rightarrow> 'p store \<Rightarrow> 'p store" where
  "tape_append r x st =
     (case st r of Some (TapeList xs) \<Rightarrow> st(r \<mapsto> TapeList (xs @ [x])) | _ \<Rightarrow> st)"

definition lob_append :: "ref \<Rightarrow> 'p \<times> int \<Rightarrow> 'p store \<Rightarrow> 'p store" where
  "lob_append r x st =
     (case st r of Some (AnonList xs) \<Rightarrow> st(r \<mapsto> AnonList (xs @ [x])) | _ \<Rightarrow> st)"

text \<open>What the exchange itself reads through its own fields.\<close>

definition live_tape :: "'p Exchange_obj \<Rightarrow> 'p store \<Rightarrow> 'p tape_item list" where
  "live_tape xo st = (case st (xo_tape xo) of Some (TapeList xs) \<Rightarrow> xs | _ \<Rightarrow> [])"

definition live_lob_anon :: "'p side_obj \<Rightarrow> 'p store \<Rightarrow> ('p \<times> int) list" where
  "live_lob_anon so st = (case st (so_lob_anon so) of Some (AnonList xs) \<Rightarrow> xs | _ \<Rightarrow> [])"

text \<open>
  A new exchange: \<^verbatim>\<open>Orderbook_half.__init__\<close> and \<^verbatim>\<open>Orderbook.__init__\<close> allocate three empty
  lists, here at the addresses 0, 1 and 2.
\<close>

definition Exchange_obj_init :: "('p::numeral) Exchange_obj" where
  "Exchange_obj_init =
     \<lparr>xo_bids = \<lparr>so_best_price = None, so_worstprice = bse_sys_minprice,
                 so_n_orders = 0, so_lob_anon = 0\<rparr>,
      xo_asks = \<lparr>so_best_price = None, so_worstprice = bse_sys_maxprice,
                 so_n_orders = 0, so_lob_anon = 1\<rparr>,
      xo_quote_id = 0, xo_tape = 2\<rparr>"

definition store_init :: "'p store" where
  "store_init = [0 \<mapsto> AnonList [], 1 \<mapsto> AnonList [], 2 \<mapsto> TapeList []]"

section \<open>Traders\<close>

text \<open>
  Python numbers of the traders (prices, balances, times) are exact rationals here, and
  reals where \<^verbatim>\<open>math.exp\<close> is involved: the rounding of floating-point arithmetic is not
  modelled, and every concrete evaluation below uses values that binary floating point
  represents and combines exactly, or a result that does not depend on the rounding.
\<close>

subsection \<open>The \<^verbatim>\<open>Trader\<close> superclass\<close>

text \<open>
  \<^verbatim>\<open>tid\<close> and \<^verbatim>\<open>orders\<close> are already fields of orders and of book sides, so the trader's
  are \<open>trader_tid\<close> and \<open>cust_orders\<close>.
\<close>

record Trader =
  ttype :: string
  trader_tid :: string
  balance :: rat
  blotter :: "rat tape_item list"
  cust_orders :: "rat order list"
  n_quotes :: int
  willing :: int
  able :: int
  birthtime :: rat
  profitpertime :: rat
  n_trades :: int
  lastquote :: "rat order option"

definition Trader_init :: "string \<Rightarrow> string \<Rightarrow> rat \<Rightarrow> rat \<Rightarrow> Trader" where
  "Trader_init ty t bal tm =
     \<lparr>ttype = ty, trader_tid = t, balance = bal, blotter = [], cust_orders = [],
      n_quotes = 0, willing = 1, able = 1, birthtime = tm, profitpertime = 0,
      n_trades = 0, lastquote = None\<rparr>"

datatype add_response = LOB_Cancel | Proceed

text \<open>\<^verbatim>\<open>Trader.add_order\<close> (the exchange has an \<^verbatim>\<open>add_order\<close> of its own).\<close>

definition trader_add_order :: "rat order \<Rightarrow> Trader \<Rightarrow> add_response \<times> Trader" where
  "trader_add_order ord tr =
     (let response = (if n_quotes tr > 0 then LOB_Cancel else Proceed)
      in (response, tr\<lparr>cust_orders := [ord]\<rparr>))"

definition trader_del_order :: "Trader \<Rightarrow> Trader" where
  "trader_del_order tr = tr\<lparr>cust_orders := []\<rparr>"

text \<open>\<^verbatim>\<open>trade['price']\<close>, \<^verbatim>\<open>trade['party1']\<close>, \<^verbatim>\<open>trade['party2']\<close>: keys of a trade record only.\<close>

fun trade_price :: "'p tape_item \<Rightarrow> error + 'p" where
  "trade_price (Trade tm p c1 c2 q) = Inr p"
| "trade_price (Cancel tm ord) = Inl KeyError"

fun trade_party1 :: "'p tape_item \<Rightarrow> error + string" where
  "trade_party1 (Trade tm p c1 c2 q) = Inr c1"
| "trade_party1 (Cancel tm ord) = Inl KeyError"

fun trade_party2 :: "'p tape_item \<Rightarrow> error + string" where
  "trade_party2 (Trade tm p c1 c2 q) = Inr c2"
| "trade_party2 (Cancel tm ord) = Inl KeyError"

text \<open>
  \<^verbatim>\<open>Trader.bookkeep\<close> assigns to the trader's fields one after the other and can raise
  in between, so its result is the trader as the call leaves it together with the
  exception that ended the call, if any. Its \<^verbatim>\<open>order\<close> argument is rebound by the first
  loop and ignored by \<^verbatim>\<open>del_order\<close>.
\<close>

definition bookkeep :: "rat tape_item \<Rightarrow> rat \<Rightarrow> Trader \<Rightarrow> error option \<times> Trader" where
  "bookkeep trade tm tr =
     (let tr1 = tr\<lparr>blotter := blotter tr @ [trade]\<rparr> in
      case trade_price trade of
        Inl e \<Rightarrow> (Some e, tr1)
      | Inr transactionprice \<Rightarrow>
          (case cust_orders tr1 of
             [] \<Rightarrow> (Some IndexError, tr1)
           | co # os \<Rightarrow>
               let profit = (if otype co = Bid then price co - transactionprice
                             else transactionprice - price co);
                   tr2 = tr1\<lparr>balance := balance tr1 + profit\<rparr>;
                   tr3 = tr2\<lparr>n_trades := n_trades tr2 + 1\<rparr>
               in if tm - birthtime tr3 = 0 then (Some ZeroDivisionError, tr3)
                  else
                    let tr4 = tr3\<lparr>profitpertime := balance tr3 / (tm - birthtime tr3)\<rparr>
                    in if profit < 0 then (Some SysExit, tr4)
                       else (None, trader_del_order tr4)))"

subsection \<open>\<^verbatim>\<open>Trader_Giveaway\<close>\<close>

definition giveaway_getorder :: "rat \<Rightarrow> rat public_data \<Rightarrow> Trader \<Rightarrow> rat order option \<times> Trader" where
  "giveaway_getorder tm lobv tr =
     (case cust_orders tr of
        [] \<Rightarrow> (None, tr)
      | co # os \<Rightarrow>
          let quoteprice = price co;
              ord = \<lparr>tid = trader_tid tr, otype = otype co, price = quoteprice,
                     qty = qty co, time = tm, qid = of_int (pd_QID lobv)\<rparr>
          in (Some ord, tr\<lparr>lastquote := Some ord\<rparr>))"

subsection \<open>The steps of \<^verbatim>\<open>market_session\<close> that touch a trader's quotes\<close>

record session =
  exchange :: "rat Exchange"
  traders :: "(string \<times> Trader) list"

text \<open>
  A customer order is issued to its trader (\<^verbatim>\<open>customer_orders\<close>); on \<^verbatim>\<open>LOB_Cancel\<close> the
  trader is put on the kill list, and \<^verbatim>\<open>market_session\<close> cancels the last quote of every
  trader on it.
\<close>

definition issue_customer_order :: "rat \<Rightarrow> rat order \<Rightarrow> session \<Rightarrow> error + (add_response \<times> session)" where
  "issue_customer_order tm ord s =
     bindE (dict_get (traders s) (tid ord)) (\<lambda>tr.
       let (response, tr') = trader_add_order ord tr;
           s1 = s\<lparr>traders := dict_set (traders s) (tid ord) tr'\<rparr>
       in if response = LOB_Cancel then
            (case lastquote tr' of
               Some q \<Rightarrow> bindE (del_order tm q (exchange s1)) (\<lambda>ex'.
                           Inr (response, s1\<lparr>exchange := ex'\<rparr>))
             | None \<Rightarrow> Inr (response, s1))
          else Inr (response, s1))"

text \<open>
  The chosen trader quotes (here with the Giveaway strategy), the quote is checked
  against the customer order, \<^verbatim>\<open>n_quotes\<close> is set to 1, the exchange processes the quote,
  and both parties of a trade settle.
\<close>

definition settle :: "rat tape_item \<Rightarrow> rat \<Rightarrow> string \<Rightarrow> (string \<times> Trader) list
    \<Rightarrow> error + (string \<times> Trader) list" where
  "settle trade tm party ts =
     bindE (dict_get ts party) (\<lambda>tr.
       case bookkeep trade tm tr of
         (Some e, tr') \<Rightarrow> Inl e
       | (None, tr') \<Rightarrow> Inr (dict_set ts party tr'))"

text \<open>
  The two checks of a quote against the customer order; \<^verbatim>\<open>orders[0]\<close> is read only when
  the order type matches.
\<close>

definition check_quote :: "rat order \<Rightarrow> Trader \<Rightarrow> error + unit" where
  "check_quote ord tr =
     bindE (if otype ord = Ask
            then bindE (py_first (cust_orders tr)) (\<lambda>co.
                   if price ord < price co then Inl SysExit else Inr ())
            else Inr ()) (\<lambda>u.
       if otype ord = Bid
       then bindE (py_first (cust_orders tr)) (\<lambda>co.
              if price ord > price co then Inl SysExit else Inr ())
       else Inr ())"

definition quote_step :: "rat \<Rightarrow> string \<Rightarrow> session \<Rightarrow> error + session" where
  "quote_step tm t s =
     bindE (dict_get (traders s) t) (\<lambda>tr.
       let (quote, tr1) = giveaway_getorder tm (publish_lob tm (exchange s)) tr;
           s1 = s\<lparr>traders := dict_set (traders s) t tr1\<rparr>
       in case quote of
            None \<Rightarrow> Inr s1
          | Some ord \<Rightarrow>
              bindE (check_quote ord tr1) (\<lambda>u.
                let s2 = s1\<lparr>traders := dict_set (traders s1) t (tr1\<lparr>n_quotes := 1\<rparr>)\<rparr>
                in bindE (process_order2 tm ord (exchange s2)) (\<lambda>(trade, ex').
                     let s3 = s2\<lparr>exchange := ex'\<rparr>
                     in case trade of
                          None \<Rightarrow> Inr s3
                        | Some tr_rec \<Rightarrow>
                            bindE (trade_party1 tr_rec) (\<lambda>p1.
                            bindE (settle tr_rec tm p1 (traders s3)) (\<lambda>ts1.
                            bindE (trade_party2 tr_rec) (\<lambda>p2.
                            bindE (settle tr_rec tm p2 ts1) (\<lambda>ts2.
                              Inr (s3\<lparr>traders := ts2\<rparr>))))))))"

text \<open>The number of the trader's quotes that rest on the book.\<close>

definition live_quotes :: "string \<Rightarrow> 'p Exchange \<Rightarrow> nat" where
  "live_quotes t ex =
     length (filter (\<lambda>kv. fst kv = t) (orders (bids ex))) +
     length (filter (\<lambda>kv. fst kv = t) (orders (asks ex)))"

subsection \<open>\<^verbatim>\<open>Trader_ZIP\<close>\<close>





subsection \<open>\<^verbatim>\<open>Trader_GDX\<close>: the belief functions\<close>

record Trader_GDX =
  gdx_ttype :: string
  gdx_tid :: string
  gdx_balance :: rat
  gdx_birthtime :: rat
  gdx_profitpertime :: rat
  gdx_n_trades :: int
  gdx_blotter :: "rat tape_item list"
  gdx_orders :: "rat order list"
  gdx_prev_orders :: "rat order list"
  gdx_n_quotes :: int
  gdx_lastquote :: "rat order option"
  gdx_job :: "otype option"
  gdx_active :: bool
  gdx_outstanding_bids :: "(rat \<times> int) list"
  gdx_outstanding_asks :: "(rat \<times> int) list"
  gdx_accepted_asks :: "rat list"
  gdx_accepted_bids :: "rat list"
  gdx_price :: rat
  gdx_prev_best_bid_p :: "rat option"
  gdx_prev_best_bid_q :: "int option"
  gdx_prev_best_ask_p :: "rat option"
  gdx_prev_best_ask_q :: "int option"
  gdx_first_turn :: bool
  gdx_gamma :: rat
  gdx_holdings :: int
  gdx_remaining_offer_ops :: int
  gdx_values :: "rat list list"

text \<open>A counting loop: \<^verbatim>\<open>for p in xs: if cond(p): n += 1\<close>.\<close>

fun count_if :: "('a \<Rightarrow> bool) \<Rightarrow> 'a list \<Rightarrow> nat" where
  "count_if c [] = 0"
| "count_if c (p # ps) = (if c p then 1 + count_if c ps else count_if c ps)"

definition belief_sell :: "Trader_GDX \<Rightarrow> rat \<Rightarrow> rat" where
  "belief_sell g prc =
     (let accepted_asks_greater = count_if (\<lambda>p. p \<ge> prc) (gdx_accepted_asks g);
          bids_greater = count_if (\<lambda>p. p \<ge> prc) (map fst (gdx_outstanding_bids g));
          unaccepted_asks_lower = count_if (\<lambda>p. p \<le> prc) (map fst (gdx_outstanding_asks g))
      in if accepted_asks_greater + bids_greater + unaccepted_asks_lower = 0 then 0
         else of_nat (accepted_asks_greater + bids_greater) /
              of_nat (accepted_asks_greater + bids_greater + unaccepted_asks_lower))"

definition belief_buy :: "Trader_GDX \<Rightarrow> rat \<Rightarrow> rat" where
  "belief_buy g prc =
     (let accepted_bids_lower = count_if (\<lambda>p. p \<le> prc) (gdx_accepted_bids g);
          asks_lower = count_if (\<lambda>p. p \<le> prc) (map fst (gdx_outstanding_asks g));
          unaccepted_bids_greater = count_if (\<lambda>p. p \<ge> prc) (map fst (gdx_outstanding_bids g))
      in if accepted_bids_lower + asks_lower + unaccepted_bids_greater = 0 then 0
         else of_nat (accepted_bids_lower + asks_lower) /
              of_nat (accepted_bids_lower + asks_lower + unaccepted_bids_greater))"

text \<open>The three counts that form the denominators.\<close>

definition sell_observations :: "Trader_GDX \<Rightarrow> rat \<Rightarrow> nat" where
  "sell_observations g prc =
     count_if (\<lambda>p. p \<ge> prc) (gdx_accepted_asks g) +
     count_if (\<lambda>p. p \<ge> prc) (map fst (gdx_outstanding_bids g)) +
     count_if (\<lambda>p. p \<le> prc) (map fst (gdx_outstanding_asks g))"

definition buy_observations :: "Trader_GDX \<Rightarrow> rat \<Rightarrow> nat" where
  "buy_observations g prc =
     count_if (\<lambda>p. p \<le> prc) (gdx_accepted_bids g) +
     count_if (\<lambda>p. p \<le> prc) (map fst (gdx_outstanding_asks g)) +
     count_if (\<lambda>p. p \<ge> prc) (map fst (gdx_outstanding_bids g))"

subsection \<open>\<^verbatim>\<open>Trader_AA\<close>: target price and quote\<close>
















section \<open>Invariants and derived notions\<close>

subsection \<open>Consistency of a book side\<close>

text \<open>The resting orders of a side, in the order of the owner map.\<close>

definition resting :: "'p Orderbook_half \<Rightarrow> 'p order list" where
  "resting h = map snd (orders h)"

text \<open>The price level that the resting orders \<open>os\<close> form at price \<open>p\<close>.\<close>

definition level_of :: "'p \<Rightarrow> 'p order list \<Rightarrow> (int \<times> lob_entry list) option" where
  "level_of p os = (let xs = filter (\<lambda>ord. price ord = p) os in
      if xs = [] then None else Some (sum_list (map qty xs), map entry_of xs))"

text \<open>The best price of a side: the highest bid, the lowest ask.\<close>

definition best_of :: "otype \<Rightarrow> ('p::linorder) order list \<Rightarrow> 'p option" where
  "best_of bt os = (if os = [] then None
     else Some (if bt = Bid then Max (set (map price os)) else Min (set (map price os))))"

text \<open>The owner of the first order, in the order of the owner map, at price \<open>p\<close>.\<close>

definition first_at :: "'p \<Rightarrow> 'p order list \<Rightarrow> string option" where
  "first_at p os = map_option tid (find (\<lambda>ord. price ord = p) os)"

definition best_owner :: "otype \<Rightarrow> ('p::linorder) order list \<Rightarrow> string option" where
  "best_owner bt os = (case best_of bt os of None \<Rightarrow> None | Some p \<Rightarrow> first_at p os)"

definition owners_ok :: "'p Orderbook_half \<Rightarrow> bool" where
  "owners_ok h \<longleftrightarrow> distinct (map fst (orders h)) \<and>
     list_all (\<lambda>kv. tid (snd kv) = fst kv) (orders h) \<and>
     n_orders h = int (length (orders h))"

text \<open>
  A side is consistent when every owner has one entry under its own id, the order count
  is the size of the owner map, and the price index, the published depth list and the
  cached best price and owner are the ones \<^verbatim>\<open>build_lob\<close> derives from the owner map.
\<close>

definition half_ok :: "('p::linorder) Orderbook_half \<Rightarrow> bool" where
  "half_ok h \<longleftrightarrow>
     distinct (map fst (orders h)) \<and>
     list_all (\<lambda>kv. tid (snd kv) = fst kv) (orders h) \<and>
     n_orders h = int (length (orders h)) \<and>
     lob h = foldl lob_add [] (resting h) \<and>
     lob_anon h = anonymize_lob (lob h) \<and>
     best_price h = best_of (booktype h) (resting h) \<and>
     best_tid h = best_owner (booktype h) (resting h)"

definition rebuilt :: "('p::linorder) Orderbook_half \<Rightarrow> 'p Orderbook_half" where
  "rebuilt h = h\<lparr>lob := foldl lob_add [] (resting h),
                lob_anon := anonymize_lob (foldl lob_add [] (resting h)),
                best_price := best_of (booktype h) (resting h),
                best_tid := best_owner (booktype h) (resting h)\<rparr>"

definition added :: "'p order \<Rightarrow> ('p::linorder) Orderbook_half \<Rightarrow> 'p Orderbook_half" where
  "added ord h = rebuilt (h\<lparr>orders := dict_set (orders h) (tid ord) ord,
                      n_orders := int (length (dict_set (orders h) (tid ord) ord))\<rparr>)"

definition removed :: "string \<Rightarrow> ('p::linorder) Orderbook_half \<Rightarrow> 'p Orderbook_half" where
  "removed t h = rebuilt (h\<lparr>orders := filter (\<lambda>kv. fst kv \<noteq> t) (orders h),
                      n_orders := int (length (filter (\<lambda>kv. fst kv \<noteq> t) (orders h)))\<rparr>)"

text \<open>Every resting order is for at least one unit (the simulation only issues units).\<close>

definition unit_or_more :: "'p Orderbook_half \<Rightarrow> bool" where
  "unit_or_more h \<longleftrightarrow> list_all (\<lambda>ord. 1 \<le> qty ord) (resting h)"

subsection \<open>Consistency and reachability of the exchange\<close>

definition ex_ok :: "('p::linorder) Exchange \<Rightarrow> bool" where
  "ex_ok ex \<longleftrightarrow> half_ok (bids ex) \<and> half_ok (asks ex) \<and>
     booktype (bids ex) = Bid \<and> booktype (asks ex) = Ask"

text \<open>Every resting bid is priced strictly below every resting ask.\<close>

definition uncrossed :: "('p::linorder) Exchange \<Rightarrow> bool" where
  "uncrossed ex \<longleftrightarrow>
     (\<forall>b \<in> set (resting (bids ex)). \<forall>a \<in> set (resting (asks ex)). price b < price a)"

text \<open>
  The states of an exchange after any sequence of \<^verbatim>\<open>process_order2\<close> and \<^verbatim>\<open>del_order\<close>
  calls that returned, with any orders and times.
\<close>

inductive reachable :: "('p::{linorder,numeral}) Exchange \<Rightarrow> bool" where
  reach_init: "reachable Exchange_init"
| reach_process: "reachable ex \<Longrightarrow> process_order2 tm ord ex = Inr (r, ex') \<Longrightarrow> reachable ex'"
| reach_cancel: "reachable ex \<Longrightarrow> del_order tm ord ex = Inr ex' \<Longrightarrow> reachable ex'"

text \<open>The side an order goes to, the side it can trade against, and the crossing test.\<close>

definition opp_side :: "otype \<Rightarrow> 'p Exchange \<Rightarrow> 'p Orderbook_half" where
  "opp_side ot ex = (if ot = Bid then asks ex else bids ex)"

definition crossing :: "'p order \<Rightarrow> ('p::linorder) Exchange \<Rightarrow> bool" where
  "crossing ord ex \<longleftrightarrow>
     n_orders (opp_side (otype ord) ex) > 0 \<and>
     (case (best_price (bids ex), best_price (asks ex)) of
        (Some b, Some a) \<Rightarrow> a \<le> b
      | _ \<Rightarrow> False)"

section \<open>Concrete books and traders\<close>

subsection \<open>A resting ask and a crossing bid\<close>

definition ask_S01 :: "int order" where
  "ask_S01 = \<lparr>tid = ''S01'', otype = Ask, price = 50, qty = 1, time = 1, qid = 0\<rparr>"

definition bid_B01 :: "int order" where
  "bid_B01 = \<lparr>tid = ''B01'', otype = Bid, price = 60, qty = 1, time = 2, qid = 0\<rparr>"

definition bid_B02 :: "int order" where
  "bid_B02 = \<lparr>tid = ''B02'', otype = Bid, price = 40, qty = 1, time = 2, qid = 0\<rparr>"

text \<open>The book with an empty bid side and the ask of S01 at 50 resting.\<close>

definition book_S01 :: "int Exchange" where
  "book_S01 =
     \<lparr>bids = Orderbook_half_init Bid 1,
      asks = \<lparr>booktype = Ask, orders = [(''S01'', ask_S01)],
               lob = [(50, 1, [(1, 1, ''S01'', 0)])], lob_anon = [(50, 1)],
               best_price = Some 50, best_tid = Some ''S01'', worstprice = 1000,
               n_orders = 1, lob_depth = 0\<rparr>,
      tape = [], quote_id = 1\<rparr>"

text \<open>The same book with the bid of B02 at 40 resting as well.\<close>

definition book_S01_B02 :: "int Exchange" where
  "book_S01_B02 =
     book_S01\<lparr>bids := \<lparr>booktype = Bid, orders = [(''B02'', bid_B02\<lparr>qid := 1\<rparr>)],
               lob = [(40, 1, [(2, 1, ''B02'', 1)])], lob_anon = [(40, 1)],
               best_price = Some 40, best_tid = Some ''B02'', worstprice = 1,
               n_orders = 1, lob_depth = 0\<rparr>,
             quote_id := 2\<rparr>"

subsection \<open>Two bids at one price, the first owner having requoted\<close>

definition bid_early :: "int order" where
  "bid_early = \<lparr>tid = ''B01'', otype = Bid, price = 40, qty = 1, time = 1, qid = 0\<rparr>"

definition bid_other :: "int order" where
  "bid_other = \<lparr>tid = ''B02'', otype = Bid, price = 50, qty = 1, time = 2, qid = 1\<rparr>"

definition bid_requote :: "int order" where
  "bid_requote = \<lparr>tid = ''B01'', otype = Bid, price = 50, qty = 1, time = 3, qid = 2\<rparr>"

text \<open>
  The bid side after B01 bids 40 at time 1, B02 bids 50 at time 2 and B01 replaces its
  bid by 50 at time 3.
\<close>

definition requoted_side :: "int Orderbook_half" where
  "requoted_side =
     \<lparr>booktype = Bid, orders = [(''B01'', bid_requote), (''B02'', bid_other)],
      lob = [(50, 2, [(3, 1, ''B01'', 2), (2, 1, ''B02'', 1)])], lob_anon = [(50, 2)],
      best_price = Some 50, best_tid = Some ''B01'', worstprice = 1,
      n_orders = 2, lob_depth = 0\<rparr>"




definition side_after :: "error + (string \<times> 'p Orderbook_half) \<Rightarrow> 'p Orderbook_half option" where
  "side_after r = (case r of Inr (t, h) \<Rightarrow> Some h | Inl e \<Rightarrow> None)"

subsection \<open>A side with a single resting bid\<close>

definition single_side :: "int Orderbook_half" where
  "single_side =
     \<lparr>booktype = Bid, orders = [(''B01'', bid_early)],
      lob = [(40, 1, [(1, 1, ''B01'', 0)])], lob_anon = [(40, 1)],
      best_price = Some 40, best_tid = Some ''B01'', worstprice = 1,
      n_orders = 1, lob_depth = 0\<rparr>"

subsection \<open>A session of two Giveaway traders\<close>

definition cust_order :: "string \<Rightarrow> otype \<Rightarrow> rat \<Rightarrow> rat \<Rightarrow> rat order" where
  "cust_order t ot p tm = \<lparr>tid = t, otype = ot, price = p, qty = 1, time = tm, qid = - 314 / 100\<rparr>"

definition session0 :: session where
  "session0 = \<lparr>exchange = Exchange_init,
                traders = [(''B01'', Trader_init ''GVWY'' ''B01'' 0 0),
                           (''S01'', Trader_init ''GVWY'' ''S01'' 0 0)]\<rparr>"

text \<open>
  S01 is given an ask at 50 and quotes it; B01 is given a bid at 60 and quotes it, which
  trades with S01's quote; the session after these four steps.
\<close>

definition session_after_trade :: "error + session" where
  "session_after_trade =
     bindE (issue_customer_order 1 (cust_order ''S01'' Ask 50 (1 / 2)) session0) (\<lambda>(r1, s1).
     bindE (quote_step 1 ''S01'' s1) (\<lambda>s2.
     bindE (issue_customer_order 2 (cust_order ''B01'' Bid 60 (3 / 2)) s2) (\<lambda>(r2, s3).
     quote_step 2 ''B01'' s3)))"

text \<open>A trader that settles a bid with limit 60.\<close>

definition buyer_60 :: Trader where
  "buyer_60 = (Trader_init ''GVWY'' ''B01'' 0 0)\<lparr>cust_orders := [cust_order ''B01'' Bid 60 (3 / 2)],
                                              n_quotes := 1\<rparr>"

subsection \<open>A ZIP seller\<close>


subsection \<open>An AA buyer\<close>




subsection \<open>A GDX trader with observations\<close>

definition gdx_example :: Trader_GDX where
  "gdx_example =
     \<lparr>gdx_ttype = ''GDX'', gdx_tid = ''B01'', gdx_balance = 0, gdx_birthtime = 0,
      gdx_profitpertime = 0, gdx_n_trades = 0, gdx_blotter = [], gdx_orders = [],
      gdx_prev_orders = [], gdx_n_quotes = 0, gdx_lastquote = None, gdx_job = None,
      gdx_active = False,
      gdx_outstanding_bids = [(40, 1), (49, 2)], gdx_outstanding_asks = [(46, 1), (55, 1)],
      gdx_accepted_asks = [50], gdx_accepted_bids = [44, 48],
      gdx_price = - 1,
      gdx_prev_best_bid_p = None, gdx_prev_best_bid_q = None,
      gdx_prev_best_ask_p = None, gdx_prev_best_ask_q = None,
      gdx_first_turn = True, gdx_gamma = 1 / 10, gdx_holdings = 10,
      gdx_remaining_offer_ops = 10, gdx_values = replicate 10 (replicate 10 0)\<rparr>"

subsection \<open>The session after the trade\<close>

definition stale_session :: session where
  "stale_session =
     \<lparr>exchange = Exchange_init\<lparr>tape := [Trade 2 50 ''S01'' ''B01'' 1], quote_id := 2\<rparr>,
      traders =
        [(''B01'', (Trader_init ''GVWY'' ''B01'' 0 0)\<lparr>balance := 10,
             blotter := [Trade 2 50 ''S01'' ''B01'' 1], n_quotes := 1, profitpertime := 5,
             n_trades := 1,
             lastquote := Some \<lparr>tid = ''B01'', otype = Bid, price = 60, qty = 1,
                                 time = 2, qid = 1\<rparr>\<rparr>),
         (''S01'', (Trader_init ''GVWY'' ''S01'' 0 0)\<lparr>
             blotter := [Trade 2 50 ''S01'' ''B01'' 1], n_quotes := 1, n_trades := 1,
             lastquote := Some \<lparr>tid = ''S01'', otype = Ask, price = 50, qty = 1,
                                 time = 1, qid = 0\<rparr>\<rparr>)]\<rparr>"

subsection \<open>A GDX trader without observations\<close>

definition gdx_empty :: Trader_GDX where
  "gdx_empty = gdx_example\<lparr>gdx_outstanding_bids := [], gdx_outstanding_asks := [],
                             gdx_accepted_asks := [], gdx_accepted_bids := []\<rparr>"

subsection \<open>A new exchange as objects in a store\<close>

definition fresh_exchange_obj :: "int Exchange_obj" where
  "fresh_exchange_obj = Exchange_obj_init"

definition fresh_store :: "int store" where
  "fresh_store = store_init"

section \<open>Properties of the order book\<close>

subsection \<open>Dictionaries, the price index and the depth list\<close>

lemma bindE_Inr [simp]: "bindE (Inr x) f = f x" by (simp add: bindE_def)
lemma bindE_Inl [simp]: "bindE (Inl e) f = Inl e" by (simp add: bindE_def)

lemma bindE_eq_Inr: "bindE m f = Inr y \<longleftrightarrow> (\<exists>x. m = Inr x \<and> f x = Inr y)"
  by (cases m) auto

lemma map_of_dict_set: "map_of (dict_set d k v) = (map_of d)(k \<mapsto> v)"
  by (induction d) (auto simp: fun_eq_iff)

lemma fst_set_dict_set: "fst ` set (dict_set d k v) = insert k (fst ` set d)"
  by (induction d k v rule: dict_set.induct) auto

lemma distinct_dict_set: "distinct (map fst d) \<Longrightarrow> distinct (map fst (dict_set d k v))"
  by (induction d) (auto simp: fst_set_dict_set)

lemma length_dict_set: "length (dict_set d k v) = (if k \<in> fst ` set d then length d else Suc (length d))"
  by (induction d) force+

lemma dict_set_nonempty [simp]: "dict_set d k v \<noteq> []"
  by (cases d) (auto split: if_splits)

lemma map_of_lob_add:
  "map_of (lob_add l x) p =
     (if p = price x then
        Some (case map_of l p of Some (q, ol) \<Rightarrow> (q + qty x, ol @ [entry_of x])
              | None \<Rightarrow> (qty x, [entry_of x]))
      else map_of l p)"
  by (auto simp: lob_add_def map_of_dict_set split: option.splits)

lemma map_of_lobF: "map_of (foldl lob_add [] os) p = level_of p os"
proof (induction os rule: rev_induct)
  case Nil
  then show ?case by (simp add: level_of_def)
next
  case (snoc x xs)
  show ?case
  proof (cases "p = price x")
    case True
    then show ?thesis using snoc
      by (cases "filter (\<lambda>ord. price ord = price x) xs = []")
         (simp_all add: map_of_lob_add level_of_def Let_def)
  next
    case False
    then show ?thesis using snoc
      by (simp add: map_of_lob_add level_of_def Let_def)
  qed
qed

lemma keys_lob_add: "fst ` set (lob_add l x) = insert (price x) (fst ` set l)"
  by (auto simp: lob_add_def fst_set_dict_set split: option.splits)

lemma keys_lobF: "fst ` set (foldl lob_add [] os) = price ` set os"
  by (induction os rule: rev_induct) (auto simp: keys_lob_add)

lemma lobF_empty_iff: "foldl lob_add [] os = [] \<longleftrightarrow> os = []"
  using keys_lobF[of os] by (metis image_is_empty set_empty)

lemma sorted_last_Max: "sorted xs \<Longrightarrow> xs \<noteq> [] \<Longrightarrow> last xs = Max (set xs)"
proof (induction xs)
  case Nil
  then show ?case by simp
next
  case (Cons x xs)
  show ?case
  proof (cases "xs = []")
    case True
    then show ?thesis by simp
  next
    case False
    from Cons have "last xs = Max (set xs)" using False by simp
    moreover have "x \<le> last xs" using Cons.prems False by auto
    ultimately show ?thesis using False by (simp add: max_def)
  qed
qed

lemma sorted_hd_Min: "sorted xs \<Longrightarrow> xs \<noteq> [] \<Longrightarrow> hd xs = Min (set xs)"
  by (cases xs) (auto intro!: Min_eqI[symmetric])

lemma sort_empty_iff: "sort xs = [] \<longleftrightarrow> xs = []"
  by (metis length_sort length_0_conv)

lemma map_fst_anonymize: "map fst (anonymize_lob l) = sort (map fst l)"
  by (simp add: anonymize_lob_def comp_def)

lemma anonymize_empty_iff: "anonymize_lob l = [] \<longleftrightarrow> l = []"
  by (simp add: anonymize_lob_def sort_empty_iff)

lemma fst_last_anonymize:
  assumes "l \<noteq> []"
  shows "fst (last (anonymize_lob l)) = Max (fst ` set l)"
proof -
  have ne: "anonymize_lob l \<noteq> []" using assms by (simp add: anonymize_empty_iff)
  have "fst (last (anonymize_lob l)) = last (map fst (anonymize_lob l))"
    using ne by (simp add: last_map)
  also have "\<dots> = last (sort (map fst l))" by (simp add: map_fst_anonymize)
  also have "\<dots> = Max (set (sort (map fst l)))"
    using assms by (intro sorted_last_Max) (auto simp: sort_empty_iff)
  finally show ?thesis by simp
qed

lemma fst_hd_anonymize:
  assumes "l \<noteq> []"
  shows "fst (hd (anonymize_lob l)) = Min (fst ` set l)"
proof -
  have ne: "anonymize_lob l \<noteq> []" using assms by (simp add: anonymize_empty_iff)
  have "fst (hd (anonymize_lob l)) = hd (map fst (anonymize_lob l))"
    using ne by (simp add: hd_map)
  also have "\<dots> = hd (sort (map fst l))" by (simp add: map_fst_anonymize)
  also have "\<dots> = Min (set (sort (map fst l)))"
    using assms by (intro sorted_hd_Min) (auto simp: sort_empty_iff)
  finally show ?thesis by simp
qed

subsection \<open>What \<^verbatim>\<open>build_lob\<close> computes\<close>

lemma best_of_in_prices: "best_of bt os = Some p \<Longrightarrow> p \<in> price ` set os"
  unfolding best_of_def
  by (auto split: if_splits dest!: Max_in[OF finite_imageI[OF finite_set], rotated] )

lemma level_of_best:
  assumes "best_of bt os = Some p"
  shows "\<exists>ord rest. filter (\<lambda>x. price x = p) os = ord # rest \<and> first_at p os = Some (tid ord)"
proof -
  from best_of_in_prices[OF assms] obtain x where "x \<in> set os" "price x = p" by auto
  then have "filter (\<lambda>x. price x = p) os \<noteq> []" by (auto simp: filter_empty_conv)
  then obtain ord rest where f: "filter (\<lambda>x. price x = p) os = ord # rest"
    by (cases "filter (\<lambda>x. price x = p) os") auto
  have "find (\<lambda>x. price x = p) os = Some ord"
    using f by (induction os) (auto split: if_splits)
  then show ?thesis using f by (simp add: first_at_def)
qed

lemma build_lob_eq:
  "build_lob h = Inr (h\<lparr>lob := foldl lob_add [] (resting h),
                         lob_anon := anonymize_lob (foldl lob_add [] (resting h)),
                         best_price := best_of (booktype h) (resting h),
                         best_tid := best_owner (booktype h) (resting h)\<rparr>)"
proof (cases "resting h = []")
  case True
  then show ?thesis
    by (simp add: build_lob_def resting_def best_of_def best_owner_def)
next
  case False
  let ?l = "foldl lob_add [] (resting h)"
  have ne: "?l \<noteq> []" using False by (simp add: lobF_empty_iff)
  define bp where "bp = (if booktype h = Bid then fst (last (anonymize_lob ?l)) else fst (hd (anonymize_lob ?l)))"
  have bp: "best_of (booktype h) (resting h) = Some bp"
    using False ne by (simp add: bp_def best_of_def fst_last_anonymize fst_hd_anonymize keys_lobF)
  from level_of_best[OF bp] obtain ord rest where
    f: "filter (\<lambda>x. price x = bp) (resting h) = ord # rest" and fa: "first_at bp (resting h) = Some (tid ord)"
    by blast
  have lv: "map_of ?l bp = Some (sum_list (map qty (ord # rest)), map entry_of (ord # rest))"
    using f by (simp add: map_of_lobF level_of_def)
  have bo: "best_owner (booktype h) (resting h) = Some (tid ord)"
    using bp fa by (simp add: best_owner_def)
  show ?thesis
    using ne lv bp bo
    by (simp add: build_lob_def Let_def bp_def[symmetric] dict_get_def entry_tid_def entry_of_def resting_def[symmetric])
qed

lemma build_lob_rebuilt: "build_lob h = Inr (rebuilt h)"
  by (simp add: build_lob_eq rebuilt_def)

lemma half_ok_rebuilt: "owners_ok h \<Longrightarrow> half_ok (rebuilt h)"
  by (simp add: half_ok_def owners_ok_def rebuilt_def resting_def)

lemma half_ok_owners: "half_ok h \<Longrightarrow> owners_ok h"
  by (simp add: half_ok_def owners_ok_def)

lemma rebuilt_id: "half_ok h \<Longrightarrow> rebuilt h = h"
  by (simp add: half_ok_def rebuilt_def)

lemma rebuilt_fields [simp]:
  "orders (rebuilt h) = orders h" "booktype (rebuilt h) = booktype h"
  "n_orders (rebuilt h) = n_orders h" "worstprice (rebuilt h) = worstprice h"
  "lob_depth (rebuilt h) = lob_depth h"
  "best_price (rebuilt h) = best_of (booktype h) (resting h)"
  "best_tid (rebuilt h) = best_owner (booktype h) (resting h)"
  by (simp_all add: rebuilt_def)

lemma resting_rebuilt [simp]: "resting (rebuilt h) = resting h"
  by (simp add: resting_def)

lemma set_best_ok:
  assumes ok: "half_ok h" and ne: "orders h \<noteq> []" and bt: "is_bid \<longleftrightarrow> booktype h = Bid"
  shows "set_best is_bid h = Inr h"
proof -
  let ?l = "foldl lob_add [] (resting h)"
  have r: "resting h \<noteq> []" using ne by (simp add: resting_def)
  have lne: "?l \<noteq> []" using r by (simp add: lobF_empty_iff)
  have lob: "lob h = ?l" and la: "lob_anon h = anonymize_lob ?l"
    using ok by (simp_all add: half_ok_def)
  define bp where "bp = (if is_bid then fst (last (lob_anon h)) else fst (hd (lob_anon h)))"
  have bp: "best_of (booktype h) (resting h) = Some bp"
    using r lne bt by (simp add: bp_def la best_of_def fst_last_anonymize fst_hd_anonymize keys_lobF)
  from level_of_best[OF bp] obtain ord rest where
    f: "filter (\<lambda>x. price x = bp) (resting h) = ord # rest" and fa: "first_at bp (resting h) = Some (tid ord)"
    by blast
  have lv: "map_of (lob h) bp = Some (sum_list (map qty (ord # rest)), map entry_of (ord # rest))"
    using f by (simp add: lob map_of_lobF level_of_def)
  have bo: "best_owner (booktype h) (resting h) = Some (tid ord)"
    using bp fa by (simp add: best_owner_def)
  have c1: "best_price h = Some bp" and c2: "best_tid h = Some (tid ord)"
    using ok bp bo by (simp_all add: half_ok_def)
  have ane: "lob_anon h \<noteq> []" using lne la by (simp add: anonymize_empty_iff)
  have sel: "(if is_bid then py_last (lob_anon h) else py_first (lob_anon h))
      = Inr (if is_bid then last (lob_anon h) else hd (lob_anon h))"
    using ane by (cases "lob_anon h") (auto simp: py_last_def py_first_def)
  have "set_best is_bid h = Inr (h\<lparr>best_price := Some bp, best_tid := Some (tid ord)\<rparr>)"
    unfolding set_best_def sel using lv
    by (cases is_bid) (simp_all add: bp_def dict_get_def py_first_def entry_tid_def entry_of_def)
  also have "h\<lparr>best_price := Some bp, best_tid := Some (tid ord)\<rparr> = h"
    using c1 c2 by simp
  finally show ?thesis .
qed

subsection \<open>Adding an order, removing an owner, deleting the best order\<close>

lemma best_level:
  assumes ok: "half_ok h" and ne: "orders h \<noteq> []"
  obtains bp ord rest where
    "best_price h = Some bp" "best_tid h = Some (tid ord)"
    "filter (\<lambda>x. price x = bp) (resting h) = ord # rest"
    "map_of (lob h) bp = Some (sum_list (map qty (ord # rest)), map entry_of (ord # rest))"
proof -
  have r: "resting h \<noteq> []" using ne by (simp add: resting_def)
  then obtain bp where bp: "best_of (booktype h) (resting h) = Some bp"
    by (simp add: best_of_def)
  from level_of_best[OF bp] obtain ord rest where
    f: "filter (\<lambda>x. price x = bp) (resting h) = ord # rest" and fa: "first_at bp (resting h) = Some (tid ord)"
    by blast
  have "map_of (lob h) bp = Some (sum_list (map qty (ord # rest)), map entry_of (ord # rest))"
    using f ok by (simp add: half_ok_def map_of_lobF level_of_def)
  moreover have "best_price h = Some bp" "best_tid h = Some (tid ord)"
    using ok bp fa by (simp_all add: half_ok_def best_owner_def)
  ultimately show ?thesis using that f by blast
qed

lemma owners_ok_dict_set:
  assumes "owners_ok h"
  shows "owners_ok (h\<lparr>orders := dict_set (orders h) (tid ord) ord,
                      n_orders := int (length (dict_set (orders h) (tid ord) ord))\<rparr>)"
proof -
  have "list_all (\<lambda>kv. tid (snd kv) = fst kv) (dict_set d (tid ord) ord)"
    if "list_all (\<lambda>kv. tid (snd kv) = fst kv) d" for d :: "(string \<times> 'a order) list"
    using that by (induction d) auto
  then show ?thesis using assms by (simp add: owners_ok_def distinct_dict_set)
qed

lemma book_add_ok:
  assumes "half_ok h"
  shows "\<exists>resp. book_add ord h = Inr (resp, rebuilt (h\<lparr>orders := dict_set (orders h) (tid ord) ord,
                      n_orders := int (length (dict_set (orders h) (tid ord) ord))\<rparr>))"
  by (simp add: book_add_def Let_def build_lob_rebuilt)

lemma map_of_owner:
  "list_all (\<lambda>kv. tid (snd kv) = fst kv) d \<Longrightarrow> ord \<in> snd ` set d \<Longrightarrow> map_of d (tid ord) \<noteq> None"
  by (induction d) auto

lemma owners_ok_remove:
  assumes "owners_ok h"
  shows "owners_ok (h\<lparr>orders := filter (\<lambda>kv. fst kv \<noteq> t) (orders h),
                      n_orders := int (length (filter (\<lambda>kv. fst kv \<noteq> t) (orders h)))\<rparr>)"
  using assms by (simp add: owners_ok_def distinct_map_filter list_all_iff)

lemma book_del_ok:
  "book_del ord h = Inr (if map_of (orders h) (tid ord) \<noteq> None
       then rebuilt (h\<lparr>orders := filter (\<lambda>kv. fst kv \<noteq> tid ord) (orders h),
                      n_orders := int (length (filter (\<lambda>kv. fst kv \<noteq> tid ord) (orders h)))\<rparr>)
       else h)"
  by (auto simp add: book_del_def dict_del_def build_lob_rebuilt)

lemma length_remove_owner:
  "distinct (map fst d) \<Longrightarrow> map_of d t \<noteq> None \<Longrightarrow> int (length (filter (\<lambda>kv. fst kv \<noteq> t) d)) = int (length d) - 1"
proof (induction d)
  case Nil
  then show ?case by simp
next
  case (Cons a d)
  show ?case
  proof (cases "fst a = t")
    case True
    then have "t \<notin> fst ` set d" using Cons.prems by auto
    then have "filter (\<lambda>kv. fst kv \<noteq> t) d = d" by (auto simp: filter_id_conv)
    then show ?thesis using True by simp
  next
    case False
    then show ?thesis using Cons by (cases a) auto
  qed
qed

lemma delete_best_Inr:
  assumes ok: "half_ok h" and r: "delete_best h = Inr (t, h')"
  shows "best_tid h = Some t \<and> map_of (orders h) t \<noteq> None \<and>
         h'\<lparr>lob_depth := lob_depth h\<rparr> = removed t h"
proof -
  have ne: "orders h \<noteq> []"
  proof
    assume "orders h = []"
    then have "best_price h = None" using ok by (simp add: half_ok_def best_of_def resting_def)
    then show False using r by (simp add: delete_best_def)
  qed
  from best_level[OF ok ne] obtain bp ord rest where
    bp: "best_price h = Some bp" and bt: "best_tid h = Some (tid ord)" and
    f: "filter (\<lambda>x. price x = bp) (resting h) = ord # rest" and
    lv: "map_of (lob h) bp = Some (sum_list (map qty (ord # rest)), map entry_of (ord # rest))"
    by blast
  have "ord \<in> set (filter (\<lambda>x. price x = bp) (resting h))" using f by simp
  then have mem: "ord \<in> snd ` set (orders h)" by (simp add: resting_def)
  have own: "owners_ok h" using ok by (rule half_ok_owners)
  have key: "map_of (orders h) (tid ord) \<noteq> None"
    using own mem by (intro map_of_owner) (auto simp: owners_ok_def)
  have len: "int (length (filter (\<lambda>kv. fst kv \<noteq> tid ord) (orders h))) = n_orders h - 1"
    using own key by (simp add: owners_ok_def length_remove_owner)
  from r have "t = tid ord \<and> h'\<lparr>lob_depth := lob_depth h\<rparr> = removed (tid ord) h"
    using bp lv key len
    apply (simp add: delete_best_def dict_get_def dict_del_def Let_def entry_tid_def entry_of_def
        build_lob_rebuilt bindE_eq_Inr split: if_splits option.splits)
       apply (auto simp: rebuilt_def resting_def removed_def)
    done
  then show ?thesis using bt key by auto
qed

lemma qty_sum_ge: "\<forall>x \<in> set xs. 1 \<le> qty x \<Longrightarrow> int (length xs) \<le> sum_list (map qty xs)"
  by (induction xs) auto

lemma delete_best_total:
  assumes ok: "half_ok h" and ne: "orders h \<noteq> []" and q: "\<forall>ord \<in> set (resting h). 1 \<le> qty ord"
  shows "\<exists>t h'. delete_best h = Inr (t, h')"
proof -
  from best_level[OF ok ne] obtain bp ord rest where
    bp: "best_price h = Some bp" and bt: "best_tid h = Some (tid ord)" and
    f: "filter (\<lambda>x. price x = bp) (resting h) = ord # rest" and
    lv: "map_of (lob h) bp = Some (sum_list (map qty (ord # rest)), map entry_of (ord # rest))"
    by blast
  have "ord \<in> set (filter (\<lambda>x. price x = bp) (resting h))" using f by simp
  then have mem: "ord \<in> snd ` set (orders h)" by (simp add: resting_def)
  have own: "owners_ok h" using ok by (rule half_ok_owners)
  have key: "map_of (orders h) (tid ord) \<noteq> None"
    using own mem by (intro map_of_owner) (auto simp: owners_ok_def)
  show ?thesis
  proof (cases "sum_list (map qty (ord # rest)) = 1")
    case False
    then show ?thesis using bp lv key
      by (auto simp add: delete_best_def dict_get_def dict_del_def Let_def entry_tid_def entry_of_def
        build_lob_rebuilt)
  next
    case True
    show ?thesis
    proof (cases "n_orders h - 1 > 0")
      case False
      then show ?thesis using bp lv key True
        by (auto simp add: delete_best_def dict_get_def dict_del_def Let_def entry_tid_def entry_of_def
          build_lob_rebuilt)
    next
      case many: True
      have "int (length (ord # rest)) \<le> sum_list (map qty (ord # rest))"
        using q f qty_sum_ge[of "ord # rest"]
        by (metis filter_is_subset subsetD)
      then have "rest = []" using True by simp
      then have one: "length (filter (\<lambda>x. price x = bp) (resting h)) = 1" using f by simp
      have "length (resting h) > 1" using many own by (simp add: owners_ok_def resting_def)
      then have "filter (\<lambda>x. price x = bp) (resting h) \<noteq> resting h" using one by auto
      then obtain x where x: "x \<in> set (resting h)" "price x \<noteq> bp"
        by (auto simp: filter_id_conv)
      then have "price x \<in> fst ` set (lob h)" using ok by (simp add: half_ok_def keys_lobF)
      then have "filter (\<lambda>kv. fst kv \<noteq> bp) (lob h) \<noteq> []"
        using x(2) by (auto simp: filter_empty_conv)
      then obtain k ks where "map fst (filter (\<lambda>kv. fst kv \<noteq> bp) (lob h)) = k # ks"
        by (cases "filter (\<lambda>kv. fst kv \<noteq> bp) (lob h)") auto
      then show ?thesis using bp lv key True many
        by (auto simp add: delete_best_def dict_get_def dict_del_def Let_def entry_tid_def entry_of_def
          build_lob_rebuilt py_max_def py_min_def)
    qed
  qed
qed

subsection \<open>The exchange's operations on a consistent book\<close>

lemma half_ok_lob_depth [simp]: "half_ok (h\<lparr>lob_depth := d\<rparr>) = half_ok h"
  by (simp add: half_ok_def resting_def)

lemma half_ok_added: "half_ok h \<Longrightarrow> half_ok (added ord h)"
  unfolding added_def by (intro half_ok_rebuilt owners_ok_dict_set half_ok_owners)

lemma half_ok_removed: "half_ok h \<Longrightarrow> half_ok (removed t h)"
  unfolding removed_def by (intro half_ok_rebuilt owners_ok_remove half_ok_owners)

lemma added_fields [simp]:
  "orders (added ord h) = dict_set (orders h) (tid ord) ord"
  "booktype (added ord h) = booktype h" "worstprice (added ord h) = worstprice h"
  by (simp_all add: added_def)

lemma removed_fields [simp]:
  "orders (removed t h) = filter (\<lambda>kv. fst kv \<noteq> t) (orders h)"
  "booktype (removed t h) = booktype h" "worstprice (removed t h) = worstprice h"
  by (simp_all add: removed_def)

lemma book_add_added: "\<exists>resp. book_add ord h = Inr (resp, added ord h)"
  by (simp add: book_add_def Let_def build_lob_rebuilt added_def)

lemma add_order_ok:
  assumes ok: "ex_ok ex"
  shows "\<exists>resp. add_order ord ex = Inr ((of_int (quote_id ex), resp),
     (if otype ord = Bid
      then ex\<lparr>quote_id := quote_id ex + 1, bids := added (ord\<lparr>qid := of_int (quote_id ex)\<rparr>) (bids ex)\<rparr>
      else ex\<lparr>quote_id := quote_id ex + 1, asks := added (ord\<lparr>qid := of_int (quote_id ex)\<rparr>) (asks ex)\<rparr>))"
proof -
  let ?o = "ord\<lparr>qid := of_int (quote_id ex)\<rparr>"
  have b: "set_best True (added ?o (bids ex)) = Inr (added ?o (bids ex))"
    using ok by (intro set_best_ok half_ok_added) (simp_all add: ex_ok_def)
  have a: "set_best False (added ?o (asks ex)) = Inr (added ?o (asks ex))"
    using ok by (intro set_best_ok half_ok_added) (simp_all add: ex_ok_def)
  obtain r1 where r1: "book_add ?o (bids ex) = Inr (r1, added ?o (bids ex))"
    using book_add_added by blast
  obtain r2 where r2: "book_add ?o (asks ex) = Inr (r2, added ?o (asks ex))"
    using book_add_added by blast
  show ?thesis
    by (cases "otype ord = Bid") (simp_all add: add_order_def Let_def r1 r2 a b)
qed

lemma removed_absent: "map_of (orders h) t = None \<Longrightarrow> half_ok h \<Longrightarrow> removed t h = h"
proof -
  assume a: "map_of (orders h) t = None" and ok: "half_ok h"
  have "filter (\<lambda>kv. fst kv \<noteq> t) (orders h) = orders h"
    using a by (auto simp: filter_id_conv map_of_eq_None_iff)
  then have "removed t h = rebuilt (h\<lparr>n_orders := int (length (orders h))\<rparr>)"
    by (simp add: removed_def)
  also have "h\<lparr>n_orders := int (length (orders h))\<rparr> = h" using ok by (simp add: half_ok_def)
  finally show ?thesis using ok by (simp add: rebuilt_id)
qed

lemma half_ok_empty_best: "half_ok h \<Longrightarrow> \<not> n_orders h > 0 \<Longrightarrow> h\<lparr>best_price := None, best_tid := None\<rparr> = h"
  by (simp add: half_ok_def best_of_def best_owner_def resting_def)

lemma cancel_half:
  assumes ok: "half_ok h" and bt: "is_bid \<longleftrightarrow> booktype h = Bid"
  shows "bindE (book_del ord h) (\<lambda>b. bindE (if n_orders b > 0 then set_best is_bid b
               else Inr (b\<lparr>best_price := None, best_tid := None\<rparr>)) k) = k (removed (tid ord) h)"
proof -
  have del: "book_del ord h = Inr (removed (tid ord) h)"
    using ok by (auto simp: book_del_ok removed_def[symmetric] removed_absent)
  have ok': "half_ok (removed (tid ord) h)" using ok by (rule half_ok_removed)
  show ?thesis
  proof (cases "n_orders (removed (tid ord) h) > 0")
    case True
    then have "orders (removed (tid ord) h) \<noteq> []"
      using ok' by (auto simp: half_ok_def)
    then have "set_best is_bid (removed (tid ord) h) = Inr (removed (tid ord) h)"
      using ok' bt by (intro set_best_ok) simp_all
    then show ?thesis using True by (simp add: del)
  next
    case False
    then show ?thesis using half_ok_empty_best[OF ok' False] by (simp add: del)
  qed
qed

lemma del_order_ok:
  assumes ok: "ex_ok ex"
  shows "del_order tm ord ex =
     (if otype ord = Bid then Inr (ex\<lparr>bids := removed (tid ord) (bids ex), tape := tape ex @ [Cancel tm ord]\<rparr>)
      else if otype ord = Ask then Inr (ex\<lparr>asks := removed (tid ord) (asks ex), tape := tape ex @ [Cancel tm ord]\<rparr>)
      else Inl SysExit)"
proof -
  have b: "half_ok (bids ex)" "True \<longleftrightarrow> booktype (bids ex) = Bid"
    and a: "half_ok (asks ex)" "False \<longleftrightarrow> booktype (asks ex) = Bid"
    using ok by (simp_all add: ex_ok_def)
  show ?thesis
    unfolding del_order_def cancel_half[OF b] cancel_half[OF a] by simp
qed

subsection \<open>Every returning call preserves the invariant\<close>

lemma best_facts:
  assumes ok: "half_ok h" and ne: "orders h \<noteq> []"
  obtains p x where "best_price h = Some p" "x \<in> set (resting h)" "price x = p"
    "best_tid h = Some (tid x)"
    "\<forall>y \<in> set (resting h). if booktype h = Bid then price y \<le> p else p \<le> price y"
proof -
  from best_level[OF ok ne] obtain bp ord rest where
    bp: "best_price h = Some bp" and bt: "best_tid h = Some (tid ord)" and
    f: "filter (\<lambda>x. price x = bp) (resting h) = ord # rest"
    by blast
  have "ord \<in> set (filter (\<lambda>x. price x = bp) (resting h))" using f by simp
  then have mem: "ord \<in> set (resting h)" "price ord = bp" by auto
  have "best_of (booktype h) (resting h) = Some bp" using ok bp by (simp add: half_ok_def)
  then have "\<forall>y \<in> set (resting h). if booktype h = Bid then price y \<le> bp else bp \<le> price y"
    by (auto simp: best_of_def split: if_splits)
  then show ?thesis using that bp bt mem by blast
qed

lemma n_orders_pos: "half_ok h \<Longrightarrow> n_orders h > 0 \<longleftrightarrow> orders h \<noteq> []"
  by (auto simp: half_ok_def)

lemma resting_added_subset: "set (resting (added ord h)) \<subseteq> insert ord (set (resting h))"
proof -
  have "snd ` set (dict_set d k v) \<subseteq> insert v (snd ` set d)" for d :: "(string \<times> 'a order) list" and k v
    by (induction d k v rule: dict_set.induct) auto
  then show ?thesis by (simp add: resting_def)
qed

lemma resting_added_mem: "ord \<in> set (resting (added ord h))"
proof -
  have "v \<in> snd ` set (dict_set d k v)" for d :: "(string \<times> 'a order) list" and k v
    by (induction d k v rule: dict_set.induct) auto
  then show ?thesis by (simp add: resting_def)
qed

lemma resting_removed_subset: "set (resting (removed t h)) \<subseteq> set (resting h)"
  by (auto simp: resting_def)

lemma resting_removed_added: "set (resting (removed (tid ord) (added ord h))) \<subseteq> set (resting h)"
proof -
  have "filter (\<lambda>kv. fst kv \<noteq> k) (dict_set d k v) = filter (\<lambda>kv. fst kv \<noteq> k) d"
    for d :: "(string \<times> 'a order) list" and k v
    by (induction d k v rule: dict_set.induct) auto
  then show ?thesis by (auto simp: resting_def)
qed

lemma resting_lob_depth: "h'\<lparr>lob_depth := d\<rparr> = g \<Longrightarrow> resting h' = resting g"
  by (auto simp: resting_def)

lemma half_ok_lob_depth_eq: "h'\<lparr>lob_depth := d\<rparr> = g \<Longrightarrow> half_ok g \<Longrightarrow> half_ok h'"
  using half_ok_lob_depth by metis

lemma booktype_lob_depth_eq: "h'\<lparr>lob_depth := d\<rparr> = g \<Longrightarrow> booktype h' = booktype g"
  by (metis Orderbook_half.select_convs(1) Orderbook_half.surjective Orderbook_half.update_convs(9))

lemma finish_order_Inr:
  "finish_order tm ord c p ex = Inr (r, ex') \<Longrightarrow>
     bids ex' = bids ex \<and> asks ex' = asks ex"
  by (auto simp: finish_order_def Let_def split: option.splits)

lemma process_bid_step:
  assumes ok: "ex_ok ex" and un: "uncrossed ex" and ot: "otype ord = Bid"
    and r: "process_order2 tm ord ex = Inr (r, ex')"
  shows "ex_ok ex' \<and> uncrossed ex'"
proof -
  let ?o = "ord\<lparr>qid := of_int (quote_id ex)\<rparr>"
  let ?B = "added ?o (bids ex)"
  let ?A = "asks ex"
  let ?ex1 = "ex\<lparr>quote_id := quote_id ex + 1, bids := ?B\<rparr>"
  from add_order_ok[OF ok, of ord] ot obtain resp where
    add: "add_order ord ex = Inr ((of_int (quote_id ex), resp), ?ex1)" by auto
  have okB: "half_ok ?B" and okA: "half_ok ?A" and btB: "booktype ?B = Bid" and btA: "booktype ?A = Ask"
    using ok by (simp_all add: ex_ok_def half_ok_added)
  have neB: "orders ?B \<noteq> []" by simp
  from best_facts[OF okB neB] obtain pb xb where
    pb: "best_price ?B = Some pb" "xb \<in> set (resting ?B)" "price xb = pb" "best_tid ?B = Some (tid xb)"
    and maxb: "\<forall>y \<in> set (resting ?B). price y \<le> pb"
    using btB by (metis (full_types))
  show ?thesis
  proof (cases "orders ?A = []")
    case True
    then have "\<not> n_orders ?A > 0" using okA by (simp add: n_orders_pos)
    with r add ot have "bids ex' = ?B" "asks ex' = ?A"
      by (auto simp: process_order2_def Let_def finish_order_def)
    moreover have "resting ?A = []" using True by (simp add: resting_def)
    ultimately show ?thesis using okB okA btB btA
      by (simp add: ex_ok_def uncrossed_def)
  next
    case neA: False
    then have pos: "n_orders ?A > 0" using okA by (simp add: n_orders_pos)
    from best_facts[OF okA neA] obtain pa xa where
      pa: "best_price ?A = Some pa" "xa \<in> set (resting ?A)" "price xa = pa" "best_tid ?A = Some (tid xa)"
      and mina: "\<forall>y \<in> set (resting ?A). pa \<le> price y"
      using btA by (metis (full_types) otype.distinct(1))
    show ?thesis
    proof (cases "pa \<le> pb")
      case False
      with r add ot pos pa pb have "bids ex' = ?B" "asks ex' = ?A"
        by (auto simp: process_order2_def Let_def finish_order_def py_ge_def)
      moreover have "\<forall>b \<in> set (resting ?B). \<forall>a \<in> set (resting ?A). price b < price a"
        using False maxb mina by (meson le_less_trans not_le order_trans)
      ultimately show ?thesis using okB okA btB btA
        by (simp add: ex_ok_def uncrossed_def)
    next
      case True
      from r add ot pos pa pb True obtain c1 a' c2 b' where
        d1: "delete_best ?A = Inr (c1, a')" and d2: "delete_best ?B = Inr (c2, b')"
        and fin: "finish_order tm ord (Some (tid xa)) (Some pa) (?ex1\<lparr>asks := a', bids := b'\<rparr>) = Inr (r, ex')"
        by (auto simp: process_order2_def Let_def py_ge_def bindE_eq_Inr)
      from delete_best_Inr[OF okA d1] have a': "a'\<lparr>lob_depth := lob_depth ?A\<rparr> = removed c1 ?A" by simp
      from delete_best_Inr[OF okB d2] have c2: "best_tid ?B = Some c2"
        and b': "b'\<lparr>lob_depth := lob_depth ?B\<rparr> = removed c2 ?B" by simp_all
      have old: "\<forall>y \<in> set (resting (bids ex)). price y < pa"
        using un pa by (auto simp: uncrossed_def)
      have "xb = ?o"
      proof (rule ccontr)
        assume "xb \<noteq> ?o"
        then have "xb \<in> set (resting (bids ex))" using pb(2) resting_added_subset by fastforce
        then show False using old pb(3) True by auto
      qed
      then have "c2 = tid ?o" using c2 pb(4) by simp
      then have rb: "set (resting b') \<subseteq> set (resting (bids ex))"
        using resting_lob_depth[OF b'] resting_removed_added[of ?o "bids ex"] by simp
      have ra: "set (resting a') \<subseteq> set (resting ?A)"
        using resting_lob_depth[OF a'] resting_removed_subset[of c1 ?A] by simp
      have "half_ok a'" "half_ok b'" "booktype a' = Ask" "booktype b' = Bid"
        using half_ok_lob_depth_eq[OF a'] half_ok_lob_depth_eq[OF b'] okA okB
          booktype_lob_depth_eq[OF a'] booktype_lob_depth_eq[OF b'] btA btB
        by (simp_all add: half_ok_removed)
      moreover have "bids ex' = b'" "asks ex' = a'"
        using finish_order_Inr[OF fin] by simp_all
      moreover have "\<forall>b \<in> set (resting b'). \<forall>a \<in> set (resting a'). price b < price a"
        using rb ra un by (auto simp: uncrossed_def)
      ultimately show ?thesis by (simp add: ex_ok_def uncrossed_def)
    qed
  qed
qed

lemma process_ask_step:
  assumes ok: "ex_ok ex" and un: "uncrossed ex" and ot: "otype ord = Ask"
    and r: "process_order2 tm ord ex = Inr (r, ex')"
  shows "ex_ok ex' \<and> uncrossed ex'"
proof -
  let ?o = "ord\<lparr>qid := of_int (quote_id ex)\<rparr>"
  let ?A = "added ?o (asks ex)"
  let ?B = "bids ex"
  let ?ex1 = "ex\<lparr>quote_id := quote_id ex + 1, asks := ?A\<rparr>"
  from add_order_ok[OF ok, of ord] ot obtain resp where
    add: "add_order ord ex = Inr ((of_int (quote_id ex), resp), ?ex1)" by auto
  have okB: "half_ok ?B" and okA: "half_ok ?A" and btB: "booktype ?B = Bid" and btA: "booktype ?A = Ask"
    using ok by (simp_all add: ex_ok_def half_ok_added)
  have neA: "orders ?A \<noteq> []" by simp
  from best_facts[OF okA neA] obtain pa xa where
    pa: "best_price ?A = Some pa" "xa \<in> set (resting ?A)" "price xa = pa" "best_tid ?A = Some (tid xa)"
    and mina: "\<forall>y \<in> set (resting ?A). pa \<le> price y"
    using btA by (metis (full_types) otype.distinct(1))
  show ?thesis
  proof (cases "orders ?B = []")
    case True
    then have "\<not> n_orders ?B > 0" using okB by (simp add: n_orders_pos)
    with r add ot have "bids ex' = ?B" "asks ex' = ?A"
      by (auto simp: process_order2_def Let_def finish_order_def)
    moreover have "resting ?B = []" using True by (simp add: resting_def)
    ultimately show ?thesis using okB okA btB btA
      by (simp add: ex_ok_def uncrossed_def)
  next
    case neB: False
    then have pos: "n_orders ?B > 0" using okB by (simp add: n_orders_pos)
    from best_facts[OF okB neB] obtain pb xb where
      pb: "best_price ?B = Some pb" "xb \<in> set (resting ?B)" "price xb = pb" "best_tid ?B = Some (tid xb)"
      and maxb: "\<forall>y \<in> set (resting ?B). price y \<le> pb"
      using btB by (metis (full_types))
    show ?thesis
    proof (cases "pa \<le> pb")
      case False
      with r add ot pos pa pb have "bids ex' = ?B" "asks ex' = ?A"
        by (auto simp: process_order2_def Let_def finish_order_def py_ge_def)
      moreover have "\<forall>b \<in> set (resting ?B). \<forall>a \<in> set (resting ?A). price b < price a"
        using False maxb mina by (meson le_less_trans not_le order_trans)
      ultimately show ?thesis using okB okA btB btA
        by (simp add: ex_ok_def uncrossed_def)
    next
      case True
      from r add ot pos pa pb True obtain c1 b' c2 a' where
        d1: "delete_best ?B = Inr (c1, b')" and d2: "delete_best ?A = Inr (c2, a')"
        and fin: "finish_order tm ord (Some (tid xb)) (Some pb) (?ex1\<lparr>bids := b', asks := a'\<rparr>) = Inr (r, ex')"
        by (auto simp: process_order2_def Let_def py_ge_def bindE_eq_Inr)
      from delete_best_Inr[OF okB d1] have b': "b'\<lparr>lob_depth := lob_depth ?B\<rparr> = removed c1 ?B" by simp
      from delete_best_Inr[OF okA d2] have c2: "best_tid ?A = Some c2"
        and a': "a'\<lparr>lob_depth := lob_depth ?A\<rparr> = removed c2 ?A" by simp_all
      have old: "\<forall>y \<in> set (resting (asks ex)). pb < price y"
        using un pb by (auto simp: uncrossed_def)
      have "xa = ?o"
      proof (rule ccontr)
        assume "xa \<noteq> ?o"
        then have "xa \<in> set (resting (asks ex))" using pa(2) resting_added_subset by fastforce
        then show False using old pa(3) True by auto
      qed
      then have "c2 = tid ?o" using c2 pa(4) by simp
      then have ra: "set (resting a') \<subseteq> set (resting (asks ex))"
        using resting_lob_depth[OF a'] resting_removed_added[of ?o "asks ex"] by simp
      have rb: "set (resting b') \<subseteq> set (resting ?B)"
        using resting_lob_depth[OF b'] resting_removed_subset[of c1 ?B] by simp
      have "half_ok a'" "half_ok b'" "booktype a' = Ask" "booktype b' = Bid"
        using half_ok_lob_depth_eq[OF a'] half_ok_lob_depth_eq[OF b'] okA okB
          booktype_lob_depth_eq[OF a'] booktype_lob_depth_eq[OF b'] btA btB
        by (simp_all add: half_ok_removed)
      moreover have "bids ex' = b'" "asks ex' = a'"
        using finish_order_Inr[OF fin] by simp_all
      moreover have "\<forall>b \<in> set (resting b'). \<forall>a \<in> set (resting a'). price b < price a"
        using rb ra un by (auto simp: uncrossed_def)
      ultimately show ?thesis by (simp add: ex_ok_def uncrossed_def)
    qed
  qed
qed

lemma process_other: "otype ord = OtherType \<Longrightarrow> ex_ok ex \<Longrightarrow> process_order2 tm ord ex = Inl SysExit"
  using add_order_ok[of ex ord] by (auto simp: process_order2_def Let_def)

lemma process_step:
  assumes "ex_ok ex" "uncrossed ex" "process_order2 tm ord ex = Inr (r, ex')"
  shows "ex_ok ex' \<and> uncrossed ex'"
proof (cases "otype ord")
  case Bid
  then show ?thesis using assms by (intro process_bid_step)
next
  case Ask
  then show ?thesis using assms by (intro process_ask_step)
next
  case OtherType
  then show ?thesis using assms process_other[of ord ex tm] by simp
qed

lemma cancel_step:
  assumes ok: "ex_ok ex" and un: "uncrossed ex" and r: "del_order tm ord ex = Inr ex'"
  shows "ex_ok ex' \<and> uncrossed ex'"
proof -
  have sub: "set (resting (removed (tid ord) h)) \<subseteq> set (resting h)" for h :: "'a Orderbook_half"
    by (rule resting_removed_subset)
  show ?thesis
  proof (cases "otype ord")
    case Bid
    then have "ex' = ex\<lparr>bids := removed (tid ord) (bids ex), tape := tape ex @ [Cancel tm ord]\<rparr>"
      using r del_order_ok[OF ok, of tm ord] by simp
    then show ?thesis using ok un sub[of "bids ex"]
      by (auto simp: ex_ok_def uncrossed_def half_ok_removed)
  next
    case Ask
    then have "ex' = ex\<lparr>asks := removed (tid ord) (asks ex), tape := tape ex @ [Cancel tm ord]\<rparr>"
      using r del_order_ok[OF ok, of tm ord] by simp
    then show ?thesis using ok un sub[of "asks ex"]
      by (auto simp: ex_ok_def uncrossed_def half_ok_removed)
  next
    case OtherType
    then show ?thesis using r del_order_ok[OF ok, of tm ord] by simp
  qed
qed

lemma init_ok: "ex_ok Exchange_init \<and> uncrossed Exchange_init"
  by (simp add: ex_ok_def uncrossed_def Exchange_init_def Orderbook_half_init_def half_ok_def
      resting_def best_of_def best_owner_def anonymize_lob_def)

lemma reachable_inv: "reachable ex \<Longrightarrow> ex_ok ex \<and> uncrossed ex"
proof (induction rule: reachable.induct)
  case reach_init
  show ?case by (rule init_ok)
next
  case (reach_process ex tm ord r ex')
  then show ?case using process_step by blast
next
  case (reach_cancel ex tm ord ex')
  then show ?case using cancel_step by blast
qed

subsection \<open>A crossing order finds its counterparty\<close>

lemma unit_added: "unit_or_more h \<Longrightarrow> 1 \<le> qty ord \<Longrightarrow> unit_or_more (added ord h)"
  using resting_added_subset[of ord h] by (auto simp: unit_or_more_def list_all_iff)

lemma finish_trade:
  "finish_order tm ord (Some c) (Some p) ex =
     Inr (Some (Trade tm p c (tid ord) (qty ord)), ex\<lparr>tape := tape ex @ [Trade tm p c (tid ord) (qty ord)]\<rparr>)"
  by (simp add: finish_order_def Let_def)

lemma process_bid_cross:
  assumes ok: "ex_ok ex" and ot: "otype ord = Bid"
    and qo: "1 \<le> qty ord" and qb: "unit_or_more (bids ex)" and qa: "unit_or_more (asks ex)"
    and add: "add_order ord ex = Inr (qr, ex1)"
    and pos: "n_orders (asks ex1) > 0"
    and pb: "best_price (bids ex1) = Some pb" and pa: "best_price (asks ex1) = Some pa"
    and cross: "pa \<le> pb"
  shows "\<exists>c ex'. best_tid (asks ex1) = Some c \<and>
           process_order2 tm ord ex = Inr (Some (Trade tm pa c (tid ord) (qty ord)), ex') \<and>
           tape ex' = tape ex @ [Trade tm pa c (tid ord) (qty ord)]"
proof -
  let ?o = "ord\<lparr>qid := of_int (quote_id ex)\<rparr>"
  let ?B = "added ?o (bids ex)"
  let ?A = "asks ex"
  let ?ex1 = "ex\<lparr>quote_id := quote_id ex + 1, bids := ?B\<rparr>"
  from add_order_ok[OF ok, of ord] ot add have ex1: "ex1 = ?ex1" by auto
  have okB: "half_ok ?B" and okA: "half_ok ?A"
    using ok by (simp_all add: ex_ok_def half_ok_added)
  have neA: "orders ?A \<noteq> []" using pos okA ex1 by (simp add: n_orders_pos)
  from best_facts[OF okA neA] obtain xa where "xa \<in> set (resting ?A)"
    and c: "best_tid ?A = Some (tid xa)" by blast
  have "unit_or_more ?B" using qb qo by (intro unit_added) simp_all
  then obtain c2 b' where d2: "delete_best ?B = Inr (c2, b')"
    using delete_best_total[OF okB] by (fastforce simp: unit_or_more_def list_all_iff)
  obtain c1 a' where d1: "delete_best ?A = Inr (c1, a')"
    using delete_best_total[OF okA neA] qa by (fastforce simp: unit_or_more_def list_all_iff)
  have "process_order2 tm ord ex = finish_order tm ord (Some (tid xa)) (Some pa) (?ex1\<lparr>asks := a', bids := b'\<rparr>)"
    using add ex1 ot pos pb pa cross c d1 d2
    by (simp add: process_order2_def Let_def py_ge_def)
  then show ?thesis using c ex1 by (simp add: finish_trade)
qed

lemma process_ask_cross:
  assumes ok: "ex_ok ex" and ot: "otype ord = Ask"
    and qo: "1 \<le> qty ord" and qb: "unit_or_more (bids ex)" and qa: "unit_or_more (asks ex)"
    and add: "add_order ord ex = Inr (qr, ex1)"
    and pos: "n_orders (bids ex1) > 0"
    and pb: "best_price (bids ex1) = Some pb" and pa: "best_price (asks ex1) = Some pa"
    and cross: "pa \<le> pb"
  shows "\<exists>c ex'. best_tid (bids ex1) = Some c \<and>
           process_order2 tm ord ex = Inr (Some (Trade tm pb c (tid ord) (qty ord)), ex') \<and>
           tape ex' = tape ex @ [Trade tm pb c (tid ord) (qty ord)]"
proof -
  let ?o = "ord\<lparr>qid := of_int (quote_id ex)\<rparr>"
  let ?A = "added ?o (asks ex)"
  let ?B = "bids ex"
  let ?ex1 = "ex\<lparr>quote_id := quote_id ex + 1, asks := ?A\<rparr>"
  from add_order_ok[OF ok, of ord] ot add have ex1: "ex1 = ?ex1" by auto
  have okB: "half_ok ?B" and okA: "half_ok ?A"
    using ok by (simp_all add: ex_ok_def half_ok_added)
  have neB: "orders ?B \<noteq> []" using pos okB ex1 by (simp add: n_orders_pos)
  from best_facts[OF okB neB] obtain xb where "xb \<in> set (resting ?B)"
    and c: "best_tid ?B = Some (tid xb)" by blast
  have "unit_or_more ?A" using qa qo by (intro unit_added) simp_all
  then obtain c2 a' where d2: "delete_best ?A = Inr (c2, a')"
    using delete_best_total[OF okA] by (fastforce simp: unit_or_more_def list_all_iff)
  obtain c1 b' where d1: "delete_best ?B = Inr (c1, b')"
    using delete_best_total[OF okB neB] qb by (fastforce simp: unit_or_more_def list_all_iff)
  have "process_order2 tm ord ex = finish_order tm ord (Some (tid xb)) (Some pb) (?ex1\<lparr>bids := b', asks := a'\<rparr>)"
    using add ex1 ot pos pb pa cross c d1 d2
    by (simp add: process_order2_def Let_def py_ge_def)
  then show ?thesis using c ex1 by (simp add: finish_trade)
qed

subsection \<open>Evaluating the book on concrete orders\<close>

lemmas book_eval =
  process_order2_def add_order_def book_add_def book_del_def del_order_def build_lob_def
  delete_best_def set_best_def finish_order_def Exchange_init_def Orderbook_half_init_def
  lob_add_def anonymize_lob_def dict_get_def dict_del_def entry_of_def entry_tid_def
  py_first_def py_last_def py_ge_def py_max_def py_min_def
  bse_sys_maxprice_def bse_sys_minprice_def Let_def

lemma book_S01_step: "process_order2 1 ask_S01 Exchange_init = Inr (None, book_S01)"
  by (simp add: book_eval ask_S01_def book_S01_def)

lemma book_S01_B02_step: "process_order2 2 bid_B02 book_S01 = Inr (None, book_S01_B02)"
  by (simp add: book_eval ask_S01_def bid_B02_def book_S01_def book_S01_B02_def)

lemma reachable_book_S01: "reachable book_S01"
  using reach_process[OF reach_init book_S01_step] .

lemma reachable_book_S01_B02: "reachable book_S01_B02"
  using reach_process[OF reachable_book_S01 book_S01_B02_step] .

subsection \<open>The book is never left crossed\<close>

text \<open>
  Claim C2. In every state of the exchange reached from the empty book by calls of
  \<^verbatim>\<open>process_order2\<close> and \<^verbatim>\<open>del_order\<close> that returned, if both sides hold orders then the
  cached best bid does not exceed the cached best ask. (The invariant \<open>uncrossed\<close> behind
  it is strict: every resting bid is below every resting ask. The book is crossed only
  between the admission of an order and the two \<^verbatim>\<open>delete_best\<close> calls inside
  \<^verbatim>\<open>process_order2\<close>.)
\<close>

theorem uncrossed_book:
  assumes "reachable ex" and "n_orders (bids ex) > 0" and "n_orders (asks ex) > 0"
  shows "\<exists>b a. best_price (bids ex) = Some b \<and> best_price (asks ex) = Some a \<and> b \<le> a"
proof -
  from reachable_inv[OF assms(1)] have ok: "ex_ok ex" and un: "uncrossed ex" by simp_all
  have okB: "half_ok (bids ex)" and okA: "half_ok (asks ex)" using ok by (simp_all add: ex_ok_def)
  have neB: "orders (bids ex) \<noteq> []" and neA: "orders (asks ex) \<noteq> []"
    using assms(2,3) okB okA by (simp_all add: n_orders_pos)
  from best_facts[OF okB neB] obtain pb xb where
    pb: "best_price (bids ex) = Some pb" "xb \<in> set (resting (bids ex))" "price xb = pb" by metis
  from best_facts[OF okA neA] obtain pa xa where
    pa: "best_price (asks ex) = Some pa" "xa \<in> set (resting (asks ex))" "price xa = pa" by metis
  have "pb < pa" using un pb pa by (auto simp: uncrossed_def)
  then show ?thesis using pb pa by simp
qed

theorem uncrossed_book_witness:
  "reachable book_S01_B02 \<and> n_orders (bids book_S01_B02) > 0 \<and> n_orders (asks book_S01_B02) > 0 \<and>
   best_price (bids book_S01_B02) = Some 40 \<and> best_price (asks book_S01_B02) = Some 50 \<and>
   (\<exists>b a. best_price (bids book_S01_B02) = Some b \<and> best_price (asks book_S01_B02) = Some a \<and> b \<le> a)"
proof -
  have n: "n_orders (bids book_S01_B02) > 0" "n_orders (asks book_S01_B02) > 0"
    by (simp_all add: book_S01_B02_def book_S01_def)
  have b: "best_price (bids book_S01_B02) = Some 40" "best_price (asks book_S01_B02) = Some 50"
    by (simp_all add: book_S01_B02_def book_S01_def)
  show ?thesis
    using uncrossed_book[OF reachable_book_S01_B02 n] reachable_book_S01_B02 n b by blast
qed

subsection \<open>A crossing order trades at the resting price\<close>

lemma ex_ok_book_S01: "ex_ok book_S01"
  using reachable_inv[OF reachable_book_S01] by simp

text \<open>
  Claim C1. On a consistent book whose resting orders and incoming order are for at
  least one unit, an order of type Bid or Ask that, once admitted by \<^verbatim>\<open>add_order\<close>, finds
  the opposite side non-empty and the best bid at or above the best ask makes
  \<^verbatim>\<open>process_order2\<close> return a trade record whose price is the opposite side's best price
  and whose first party is the opposite side's best owner, and that record is appended
  to the tape. In particular: the empty exchange that received the ask of S01 at 50 has
  an empty bid side and that one resting ask; the bid of B01 at 60 then yields the trade
  at 50 between S01 and B01, leaves both sides empty and the tape with that one record.
\<close>

theorem crossing_order_trades:
  "(\<forall>(ex :: ('p::linorder) Exchange) ord qr ex1 tm.
      ex_ok ex \<and> unit_or_more (bids ex) \<and> unit_or_more (asks ex) \<and> 1 \<le> qty ord \<and>
      otype ord \<noteq> OtherType \<and> add_order ord ex = Inr (qr, ex1) \<and> crossing ord ex1
      \<longrightarrow> (\<exists>c p ex'. best_tid (opp_side (otype ord) ex1) = Some c \<and>
                      best_price (opp_side (otype ord) ex1) = Some p \<and>
                      process_order2 tm ord ex = Inr (Some (Trade tm p c (tid ord) (qty ord)), ex') \<and>
                      tape ex' = tape ex @ [Trade tm p c (tid ord) (qty ord)]))
   \<and> process_order2 1 ask_S01 Exchange_init = Inr (None, book_S01)
   \<and> orders (bids book_S01) = [] \<and> resting (asks book_S01) = [ask_S01]
   \<and> (case process_order2 2 bid_B01 book_S01 of
         Inr (Some trade, ex') \<Rightarrow>
           trade = Trade 2 50 ''S01'' ''B01'' 1 \<and>
           orders (bids ex') = [] \<and> n_orders (bids ex') = 0 \<and>
           orders (asks ex') = [] \<and> n_orders (asks ex') = 0 \<and>
           tape ex' = [trade] \<and> length (tape ex') = 1
       | _ \<Rightarrow> False)"
proof -
  have general: "\<exists>c p ex'. best_tid (opp_side (otype ord) ex1) = Some c \<and>
                      best_price (opp_side (otype ord) ex1) = Some p \<and>
                      process_order2 tm ord ex = Inr (Some (Trade tm p c (tid ord) (qty ord)), ex') \<and>
                      tape ex' = tape ex @ [Trade tm p c (tid ord) (qty ord)]"
    if ok: "ex_ok ex" and qb: "unit_or_more (bids ex)" and qa: "unit_or_more (asks ex)"
      and qo: "1 \<le> qty ord" and ot: "otype ord \<noteq> OtherType"
      and add: "add_order ord ex = Inr (qr, ex1)" and cr: "crossing ord ex1"
    for ex :: "'p Exchange" and ord qr ex1 tm
  proof -
    from cr obtain pb pa where pb: "best_price (bids ex1) = Some pb"
      and pa: "best_price (asks ex1) = Some pa" and le: "pa \<le> pb"
      by (auto simp: crossing_def split: option.splits)
    show ?thesis
    proof (cases "otype ord")
      case Bid
      then have "n_orders (asks ex1) > 0" using cr by (simp add: crossing_def opp_side_def)
      from process_bid_cross[OF ok Bid qo qb qa add this pb pa le, of tm]
      show ?thesis using Bid pa by (auto simp: opp_side_def)
    next
      case Ask
      then have "n_orders (bids ex1) > 0" using cr by (simp add: crossing_def opp_side_def)
      from process_ask_cross[OF ok Ask qo qb qa add this pb pa le, of tm]
      show ?thesis using Ask pb by (auto simp: opp_side_def)
    next
      case OtherType
      then show ?thesis using ot by simp
    qed
  qed
  have scen: "process_order2 2 bid_B01 book_S01 =
      Inr (Some (Trade 2 50 ''S01'' ''B01'' 1),
           book_S01\<lparr>asks := Orderbook_half_init Ask 1000, tape := [Trade 2 50 ''S01'' ''B01'' 1], quote_id := 2\<rparr>)"
    by (simp add: book_eval ask_S01_def bid_B01_def book_S01_def)
  have p1: "\<forall>(ex :: 'p Exchange) ord qr ex1 tm.
      ex_ok ex \<and> unit_or_more (bids ex) \<and> unit_or_more (asks ex) \<and> 1 \<le> qty ord \<and>
      otype ord \<noteq> OtherType \<and> add_order ord ex = Inr (qr, ex1) \<and> crossing ord ex1
      \<longrightarrow> (\<exists>c p ex'. best_tid (opp_side (otype ord) ex1) = Some c \<and>
                      best_price (opp_side (otype ord) ex1) = Some p \<and>
                      process_order2 tm ord ex = Inr (Some (Trade tm p c (tid ord) (qty ord)), ex') \<and>
                      tape ex' = tape ex @ [Trade tm p c (tid ord) (qty ord)])"
    using general by blast
  have p3: "orders (bids book_S01) = []" and p4: "resting (asks book_S01) = [ask_S01]"
    by (simp_all add: book_S01_def Orderbook_half_init_def resting_def)
  have p5: "(case process_order2 2 bid_B01 book_S01 of
         Inr (Some trade, ex') \<Rightarrow>
           trade = Trade 2 50 ''S01'' ''B01'' 1 \<and>
           orders (bids ex') = [] \<and> n_orders (bids ex') = 0 \<and>
           orders (asks ex') = [] \<and> n_orders (asks ex') = 0 \<and>
           tape ex' = [trade] \<and> length (tape ex') = 1
       | _ \<Rightarrow> False)"
    unfolding scen by (simp add: book_S01_def Orderbook_half_init_def)
  show ?thesis by (intro conjI p1 book_S01_step p3 p4 p5)
qed

theorem crossing_order_trades_witness:
  "ex_ok book_S01 \<and> unit_or_more (bids book_S01) \<and> unit_or_more (asks book_S01) \<and>
   1 \<le> qty bid_B01 \<and> otype bid_B01 \<noteq> OtherType \<and>
   add_order bid_B01 book_S01 = Inr ((1, Addition), book_S01\<lparr>quote_id := 2, bids := added (bid_B01\<lparr>qid := 1\<rparr>) (bids book_S01)\<rparr>) \<and>
   crossing bid_B01 (book_S01\<lparr>quote_id := 2, bids := added (bid_B01\<lparr>qid := 1\<rparr>) (bids book_S01)\<rparr>) \<and>
   (\<exists>ex'. process_order2 7 bid_B01 book_S01 = Inr (Some (Trade 7 50 ''S01'' ''B01'' 1), ex') \<and>
          tape ex' = tape book_S01 @ [Trade 7 50 ''S01'' ''B01'' 1])"
proof -
  let ?ex1 = "book_S01\<lparr>quote_id := 2, bids := added (bid_B01\<lparr>qid := 1\<rparr>) (bids book_S01)\<rparr>"
  have h1: "ex_ok book_S01" by (rule ex_ok_book_S01)
  have h2: "unit_or_more (bids book_S01)" "unit_or_more (asks book_S01)"
    by (simp_all add: unit_or_more_def resting_def book_S01_def Orderbook_half_init_def ask_S01_def)
  have h3: "1 \<le> qty bid_B01" "otype bid_B01 \<noteq> OtherType" by (simp_all add: bid_B01_def)
  have h4: "add_order bid_B01 book_S01 = Inr ((1, Addition), ?ex1)"
    by (simp add: book_eval added_def rebuilt_def resting_def best_of_def best_owner_def first_at_def
        ask_S01_def bid_B01_def book_S01_def)
  have h5: "crossing bid_B01 ?ex1"
    by (simp add: crossing_def opp_side_def added_def rebuilt_def resting_def best_of_def
        bid_B01_def book_S01_def Orderbook_half_init_def)
  have side: "best_tid (opp_side (otype bid_B01) ?ex1) = Some ''S01''"
     "best_price (opp_side (otype bid_B01) ?ex1) = Some 50"
     "tid bid_B01 = ''B01''" "qty bid_B01 = 1"
    by (simp_all add: opp_side_def bid_B01_def book_S01_def)
  from crossing_order_trades[THEN conjunct1, rule_format, of book_S01 bid_B01 "(1, Addition)" ?ex1 7]
    h1 h2 h3 h4 h5
  have "\<exists>c p ex'. best_tid (opp_side (otype bid_B01) ?ex1) = Some c \<and>
                      best_price (opp_side (otype bid_B01) ?ex1) = Some p \<and>
                      process_order2 7 bid_B01 book_S01 = Inr (Some (Trade 7 p c (tid bid_B01) (qty bid_B01)), ex') \<and>
                      tape ex' = tape book_S01 @ [Trade 7 p c (tid bid_B01) (qty bid_B01)]"
    by blast
  then have "\<exists>ex'. process_order2 7 bid_B01 book_S01 = Inr (Some (Trade 7 50 ''S01'' ''B01'' 1), ex') \<and>
          tape ex' = tape book_S01 @ [Trade 7 50 ''S01'' ''B01'' 1]"
    using side by auto
  then show ?thesis using h1 h2 h3 h4 h5 by blast
qed

subsection \<open>Which order \<^verbatim>\<open>delete_best\<close> removes\<close>

lemma lob_depth_eq_fields:
  assumes "h'\<lparr>lob_depth := d\<rparr> = g"
  shows "orders h' = orders g" "best_price h' = best_price g" "best_tid h' = best_tid g"
    "worstprice h' = worstprice g" "n_orders h' = n_orders g"
  using arg_cong[OF assms, of orders] arg_cong[OF assms, of best_price]
    arg_cong[OF assms, of best_tid] arg_cong[OF assms, of worstprice]
    arg_cong[OF assms, of n_orders]
  by simp_all

lemmas side_eval =
  half_ok_def resting_def best_of_def best_owner_def first_at_def unit_or_more_def

lemma half_ok_requoted_side: "half_ok requoted_side"
  by (simp add: side_eval book_eval requoted_side_def bid_requote_def bid_other_def)


lemma half_ok_single_side: "half_ok single_side"
  by (simp add: side_eval book_eval single_side_def bid_early_def)






subsection \<open>The cached best price of an emptied side\<close>

text \<open>
  Claim C5, amended. When a \<^verbatim>\<open>delete_best\<close> call on a consistent side returns and leaves
  the owner map empty, the side's cached best price and best owner are \<^verbatim>\<open>None\<close> (the
  closing \<^verbatim>\<open>build_lob\<close> recomputes them), and the worst-price stub stays in its own field,
  unchanged.
\<close>

theorem delete_best_emptied_side:
  assumes ok: "half_ok h" and d: "delete_best h = Inr (t, h')" and e: "orders h' = []"
  shows "best_price h' = None \<and> best_tid h' = None \<and> worstprice h' = worstprice h"
proof -
  from delete_best_Inr[OF ok d] have h': "h'\<lparr>lob_depth := lob_depth h\<rparr> = removed t h" by simp
  have okr: "half_ok (removed t h)" using ok by (rule half_ok_removed)
  have "orders (removed t h) = []" using lob_depth_eq_fields(1)[OF h'] e by simp
  then have "best_price (removed t h) = None" "best_tid (removed t h) = None"
    using okr by (simp_all add: half_ok_def resting_def best_of_def best_owner_def)
  then show ?thesis using lob_depth_eq_fields[OF h'] by simp
qed

theorem delete_best_emptied_side_witness:
  "half_ok single_side \<and> delete_best single_side = Inr (''B01'', Orderbook_half_init Bid 1) \<and>
   orders (Orderbook_half_init Bid (1::int)) = [] \<and>
   best_price (Orderbook_half_init Bid (1::int)) = None \<and>
   best_tid (Orderbook_half_init Bid (1::int)) = None \<and>
   worstprice (Orderbook_half_init Bid (1::int)) = worstprice single_side"
proof -
  have d: "delete_best single_side = Inr (''B01'', Orderbook_half_init Bid 1)"
    by (simp add: book_eval single_side_def bid_early_def)
  have e: "orders (Orderbook_half_init Bid (1::int)) = []" by (simp add: Orderbook_half_init_def)
  from delete_best_emptied_side[OF half_ok_single_side d e] half_ok_single_side d e
  show ?thesis by blast
qed

text \<open>
  Claim C5 as stated fails: the side with the single bid of B01 at 40 and worst price 1
  is emptied by \<^verbatim>\<open>delete_best\<close>, and its cached best price is then \<^verbatim>\<open>None\<close>, not the
  worst price 1.
\<close>

theorem best_is_worst_stub_counterexample:
  "book_add bid_early (Orderbook_half_init Bid 1) = Inr (Addition, single_side) \<and>
   resting single_side = [bid_early] \<and>
   map_option orders (side_after (delete_best single_side)) = Some [] \<and>
   map_option best_price (side_after (delete_best single_side)) = Some None \<and>
   map_option worstprice (side_after (delete_best single_side)) = Some 1 \<and>
   map_option best_price (side_after (delete_best single_side))
     \<noteq> map_option (\<lambda>h. Some (worstprice h)) (side_after (delete_best single_side))"
  by (simp add: book_eval resting_def side_after_def single_side_def bid_early_def)

section \<open>Properties of the traders\<close>

subsection \<open>Settlement divides by the trader's age\<close>

text \<open>
  Claim C9. For a trader with a pending customer order settling a trade record:
  when the settlement time equals the trader's birth time, \<^verbatim>\<open>bookkeep\<close> raises
  \<^verbatim>\<open>ZeroDivisionError\<close> and leaves \<^verbatim>\<open>profitpertime\<close> as it was; at any other time it does
  not raise that error, the balance grows by the profit, and \<^verbatim>\<open>profitpertime\<close> is set to
  the new balance divided by the time since birth.
\<close>
theorem bookkeep_partial_in_time:
  assumes "cust_orders tr = co # os"
  shows "(tm = birthtime tr \<longrightarrow>
            fst (bookkeep (Trade t p c1 c2 q) tm tr) = Some ZeroDivisionError \<and>
            profitpertime (snd (bookkeep (Trade t p c1 c2 q) tm tr)) = profitpertime tr) \<and>
         (tm \<noteq> birthtime tr \<longrightarrow>
            fst (bookkeep (Trade t p c1 c2 q) tm tr) \<noteq> Some ZeroDivisionError \<and>
            balance (snd (bookkeep (Trade t p c1 c2 q) tm tr)) =
              balance tr + (if otype co = Bid then price co - p else p - price co) \<and>
            profitpertime (snd (bookkeep (Trade t p c1 c2 q) tm tr)) =
              balance (snd (bookkeep (Trade t p c1 c2 q) tm tr)) / (tm - birthtime tr))"
  using assms by (simp add: bookkeep_def Let_def trader_del_order_def)

theorem bookkeep_partial_in_time_witness:
  "cust_orders buyer_60 = [cust_order ''B01'' Bid 60 (3 / 2)] \<and>
   birthtime buyer_60 = 0 \<and>
   fst (bookkeep (Trade 0 50 ''S01'' ''B01'' 1) 0 buyer_60) = Some ZeroDivisionError \<and>
   profitpertime (snd (bookkeep (Trade 0 50 ''S01'' ''B01'' 1) 0 buyer_60)) = 0 \<and>
   fst (bookkeep (Trade 2 50 ''S01'' ''B01'' 1) 2 buyer_60) = None \<and>
   balance (snd (bookkeep (Trade 2 50 ''S01'' ''B01'' 1) 2 buyer_60)) = 10 \<and>
   profitpertime (snd (bookkeep (Trade 2 50 ''S01'' ''B01'' 1) 2 buyer_60)) = 5"
proof -
  have h: "cust_orders buyer_60 = [cust_order ''B01'' Bid 60 (3 / 2)]"
    and b: "birthtime buyer_60 = 0" "balance buyer_60 = 0" "profitpertime buyer_60 = 0"
    by (simp_all add: buyer_60_def Trader_init_def)
  have r: "fst (bookkeep (Trade 2 50 ''S01'' ''B01'' 1) 2 buyer_60) = None"
    by (simp add: bookkeep_def Let_def buyer_60_def Trader_init_def cust_order_def)
  from bookkeep_partial_in_time[OF h, of 0 0 50 "''S01''" "''B01''" 1]
       bookkeep_partial_in_time[OF h, of 2 2 50 "''S01''" "''B01''" 1] b h r
  show ?thesis by (simp add: cust_order_def)
qed

subsection \<open>The response to a new customer order\<close>
lemma trader_add_order_response:
  "fst (trader_add_order ord tr) = (if n_quotes tr > 0 then LOB_Cancel else Proceed) \<and>
   cust_orders (snd (trader_add_order ord tr)) = [ord]"
  by (simp add: trader_add_order_def Let_def)

lemmas session_eval =
  session_after_trade_def session0_def issue_customer_order_def quote_step_def settle_def
  check_quote_def
  trader_add_order_def trader_del_order_def bookkeep_def giveaway_getorder_def publish_lob_def
  Trader_init_def cust_order_def live_quotes_def

lemma session_after_trade_eq: "session_after_trade = Inr stale_session"
  by (simp add: session_eval book_eval stale_session_def)

text \<open>
  Claim C4, at the input where the code departs from it. After S01's ask at 50 and B01's
  bid at 60 have traded, S01 has no quote on either side of the book, yet the next
  customer order issued to S01 is answered \<^verbatim>\<open>LOB_Cancel\<close> (\<^verbatim>\<open>n_quotes\<close> is still 1), and
  the session cancels S01's filled quote: a cancel record follows the trade on the tape.
\<close>

theorem stale_quote_count:
  "session_after_trade = Inr stale_session \<and>
   live_quotes ''S01'' (exchange stale_session) = 0 \<and>
   map_sum id fst (issue_customer_order 3 (cust_order ''S01'' Ask 55 (5 / 2)) stale_session)
     = Inr LOB_Cancel \<and>
   map_sum id (\<lambda>r. tape (exchange (snd r)))
       (issue_customer_order 3 (cust_order ''S01'' Ask 55 (5 / 2)) stale_session)
     = Inr [Trade 2 50 ''S01'' ''B01'' 1,
            Cancel 3 \<lparr>tid = ''S01'', otype = Ask, price = 50, qty = 1, time = 1, qid = 0\<rparr>]"
  by (simp add: session_after_trade_eq)
     (simp add: session_eval book_eval stale_session_def)

subsection \<open>The price of a ZIP quote\<close>





subsection \<open>The belief functions of GDX\<close>

lemma count_if_length: "count_if c xs = length (filter c xs)"
  by (induction xs) auto

text \<open>
  Claim C10. For every GDX trader and price, \<^verbatim>\<open>belief_sell\<close> and \<^verbatim>\<open>belief_buy\<close> are 0 when
  the three counts of the denominator are all 0, and always lie between 0 and 1.
\<close>

theorem beliefs_total_and_bounded:
  "(sell_observations g prc = 0 \<longrightarrow> belief_sell g prc = 0) \<and>
   0 \<le> belief_sell g prc \<and> belief_sell g prc \<le> 1 \<and>
   (buy_observations g prc = 0 \<longrightarrow> belief_buy g prc = 0) \<and>
   0 \<le> belief_buy g prc \<and> belief_buy g prc \<le> 1"
  by (simp add: belief_sell_def belief_buy_def sell_observations_def buy_observations_def
      Let_def divide_le_eq_1)

theorem beliefs_total_and_bounded_witness:
  "sell_observations gdx_empty 47 = 0 \<and> belief_sell gdx_empty 47 = 0 \<and>
   buy_observations gdx_empty 47 = 0 \<and> belief_buy gdx_empty 47 = 0 \<and>
   belief_sell gdx_example 47 = 2 / 3 \<and> belief_buy gdx_example 47 = 2 / 3 \<and>
   0 \<le> belief_sell gdx_example 47 \<and> belief_sell gdx_example 47 \<le> 1 \<and>
   0 \<le> belief_buy gdx_example 47 \<and> belief_buy gdx_example 47 \<le> 1"
proof -
  have e: "sell_observations gdx_empty 47 = 0" "buy_observations gdx_empty 47 = 0"
    by (simp_all add: sell_observations_def buy_observations_def gdx_empty_def)
  have v: "belief_sell gdx_example 47 = 2 / 3" "belief_buy gdx_example 47 = 2 / 3"
    by (simp_all add: belief_sell_def belief_buy_def gdx_example_def Let_def)
  from beliefs_total_and_bounded[of gdx_empty 47] beliefs_total_and_bounded[of gdx_example 47] e v
  show ?thesis by simp
qed

section \<open>The published snapshot\<close>

text \<open>
  Claim C6, amended. The snapshot that \<^verbatim>\<open>publish_lob\<close> returns holds, under \<^verbatim>\<open>'tape'\<close> and
  under the two \<^verbatim>\<open>'lob'\<close> keys, the addresses of the exchange's own tape list and depth
  lists; an \<^verbatim>\<open>append\<close> through the snapshot is an \<^verbatim>\<open>append\<close> to the list the exchange
  reads.
\<close>

theorem snapshot_shares_lists:
  "sn_tape (publish_lob_obj tm xo) = xo_tape xo \<and>
   sn_lob (sn_bids (publish_lob_obj tm xo)) = so_lob_anon (xo_bids xo) \<and>
   sn_lob (sn_asks (publish_lob_obj tm xo)) = so_lob_anon (xo_asks xo) \<and>
   (st (xo_tape xo) = Some (TapeList xs) \<longrightarrow>
      live_tape xo (tape_append (sn_tape (publish_lob_obj tm xo)) x st) = xs @ [x]) \<and>
   (st (so_lob_anon (xo_bids xo)) = Some (AnonList ys) \<longrightarrow>
      live_lob_anon (xo_bids xo) (lob_append (sn_lob (sn_bids (publish_lob_obj tm xo))) y st) = ys @ [y]) \<and>
   (st (so_lob_anon (xo_asks xo)) = Some (AnonList zs) \<longrightarrow>
      live_lob_anon (xo_asks xo) (lob_append (sn_lob (sn_asks (publish_lob_obj tm xo))) z st) = zs @ [z])"
  by (simp add: publish_lob_obj_def live_tape_def live_lob_anon_def tape_append_def lob_append_def)

theorem snapshot_shares_lists_witness:
  "fresh_store (xo_tape fresh_exchange_obj) = Some (TapeList []) \<and>
   fresh_store (so_lob_anon (xo_bids fresh_exchange_obj)) = Some (AnonList []) \<and>
   fresh_store (so_lob_anon (xo_asks fresh_exchange_obj)) = Some (AnonList []) \<and>
   live_tape fresh_exchange_obj
     (tape_append (sn_tape (publish_lob_obj 1 fresh_exchange_obj)) (Trade 1 999 ''X'' ''Y'' 1) fresh_store)
     = [Trade 1 999 ''X'' ''Y'' 1] \<and>
   live_lob_anon (xo_bids fresh_exchange_obj)
     (lob_append (sn_lob (sn_bids (publish_lob_obj 1 fresh_exchange_obj))) (999, 1) fresh_store)
     = [(999, 1)]"
proof -
  have h: "fresh_store (xo_tape fresh_exchange_obj) = Some (TapeList [])"
    "fresh_store (so_lob_anon (xo_bids fresh_exchange_obj)) = Some (AnonList [])"
    "fresh_store (so_lob_anon (xo_asks fresh_exchange_obj)) = Some (AnonList [])"
    by (simp_all add: store_init_def Exchange_obj_init_def fresh_store_def fresh_exchange_obj_def)
  from snapshot_shares_lists[of 1 fresh_exchange_obj fresh_store "[]" "Trade 1 999 ''X'' ''Y'' 1" "[]" "(999, 1)" "[]" "(999,1)"] h
  show ?thesis by auto
qed

text \<open>
  Claim C6 as stated fails: on a new exchange, appending a record to the snapshot's tape
  and a level to the snapshot's bid depth list changes the exchange's tape and the bid
  side's \<^verbatim>\<open>lob_anon\<close> from empty to non-empty.
\<close>

theorem snapshot_is_copy_counterexample:
  "live_tape fresh_exchange_obj fresh_store = [] \<and>
   live_tape fresh_exchange_obj
     (tape_append (sn_tape (publish_lob_obj 1 fresh_exchange_obj)) (Trade 1 999 ''X'' ''Y'' 1) fresh_store)
     = [Trade 1 999 ''X'' ''Y'' 1] \<and>
   live_lob_anon (xo_bids fresh_exchange_obj) fresh_store = [] \<and>
   live_lob_anon (xo_bids fresh_exchange_obj)
     (lob_append (sn_lob (sn_bids (publish_lob_obj 1 fresh_exchange_obj))) (999, 1) fresh_store)
     = [(999, 1)]"
  by (simp add: publish_lob_obj_def live_tape_def live_lob_anon_def tape_append_def lob_append_def
      store_init_def Exchange_obj_init_def fresh_store_def fresh_exchange_obj_def)

section \<open>The quote of an AA trader\<close>
















end
